theory Spec2Isabelle
  imports Complex_Main "HOL-Library.FSet" "HOL-Library.Sublist" "HOL-Library.List_Lexorder"
    "HOL-Library.Char_ord"
begin

section \<open>Market-Watcher: the news service and the scraping worker\<close>

text \<open>
  The two programs (\<^verbatim>\<open>gnews-service/src/main.py\<close>, class \<^verbatim>\<open>GNewsService\<close>, and
  \<^verbatim>\<open>scraping-worker/src/main.py\<close>, class \<^verbatim>\<open>StatusInvestScraper\<close>) talk to a message
  broker, to a data source and to the clock. Every call that leaves the program appends
  one event to a trace, and what the outside answers is read from an oracle at the
  current time, the length of the trace. The program is deterministic, so an oracle
  indexed by time gives the outside every freedom it has. An exception, a
  \<^verbatim>\<open>KeyboardInterrupt\<close> included, arises inside such a call: in the calls of the broker
  client, in the request to the data source and in \<^verbatim>\<open>time.sleep\<close>. The log messages are the
  format strings of the source, not filled in, and the connection parameters, read from
  the process environment, are left out of the event of the connection.
\<close>

subsection \<open>Exceptions\<close>

text \<open>
  \<^verbatim>\<open>KeyboardInterrupt\<close> is not a subclass of \<^verbatim>\<open>Exception\<close>; \<^verbatim>\<open>requests.RequestException\<close>
  is. No call of the two programs raises another \<^verbatim>\<open>BaseException\<close>.
\<close>

datatype exn = RequestException string | Exception string | KeyboardInterrupt

fun is_Exception :: "exn \<Rightarrow> bool" where
  "is_Exception KeyboardInterrupt = False"
| "is_Exception (RequestException m) = True"
| "is_Exception (Exception m) = True"

fun is_RequestException :: "exn \<Rightarrow> bool" where
  "is_RequestException (RequestException m) = True"
| "is_RequestException e = False"

subsection \<open>Records of the data sources\<close>

text \<open>
  An article of the news client is a dictionary; the keys the service reads are kept, each
  present or absent. \<open>publisher_title\<close> is \<^verbatim>\<open>article.get('publisher', {}).get('title')\<close>.
\<close>

record article =
  a_title :: "string option"
  a_description :: "string option"
  a_url :: "string option"
  a_publisher_title :: "string option"
  a_published_date :: "string option"

record news_data =
  title :: string
  description :: string
  url :: string
  source :: string
  published_at :: string
  topic :: string
  fetched_at :: string

datatype pynum = PyInt int | PyFloat rat

record stock_data =
  symbol :: string
  dividend_yield :: "pynum option"
  p_vp :: "pynum option"
  p_l :: "pynum option"
  roe :: "pynum option"
  liquidity :: "pynum option"
  scraped_at :: string

record response =
  status_code :: nat
  content :: string

text \<open>
  \<^verbatim>\<open>json.dumps(d)\<close> is kept as a constructor: the message is the serialisation of \<open>d\<close>.
  On a dictionary of strings and numbers, as both services build it, it does not raise.
\<close>

datatype 'd message = json_dumps 'd

subsection \<open>Events and the state of a service\<close>

datatype 'd event =
    BlockingConnection
  | Channel
  | ExchangeDeclare string string bool
  | QueueDeclare string bool
  | QueueBind string string
  | BasicPublish string string "'d message" nat string
  | ConnectionClose
  | SessionClose
  | GetNews string "exn + article list"
  | SessionGet string nat "exn + response"
  | Sleep int
  | UtcNow
  | LogInfo string
  | LogWarning string
  | LogError string

text \<open>
  \<open>ExchangeDeclare exchange exchange_type durable\<close>, \<open>QueueDeclare queue durable\<close>,
  \<open>QueueBind exchange queue\<close>,
  \<open>BasicPublish exchange routing_key body delivery_mode content_type\<close>,
  \<open>SessionGet url timeout result\<close>. The events of the data sources carry what the source
  answered.
\<close>

record 'd service =
  connection :: "nat option"
  channel :: "nat option"
  trace :: "'d event list"

record 'd scraper = "'d service" +
  session_open :: bool

record env =
  BlockingConnection_raises :: "nat \<Rightarrow> exn option"
  channel_raises :: "nat \<Rightarrow> exn option"
  basic_publish_raises :: "nat \<Rightarrow> exn option"
  sleep_interrupted :: "nat \<Rightarrow> bool"
  is_closed :: "nat \<Rightarrow> bool"
  utcnow :: "nat \<Rightarrow> string"
  CHECK_INTERVAL :: int

record news_env = env +
  get_news :: "nat \<Rightarrow> exn + article list"
  list_of_set :: "nat \<Rightarrow> string fset \<Rightarrow> string list"

record scraper_env = env +
  session_get :: "nat \<Rightarrow> exn + response"

definition now :: "('d, 'z) service_scheme \<Rightarrow> nat" where
  "now s = length (trace s)"

definition emit :: "'d event \<Rightarrow> ('d, 'z) service_scheme \<Rightarrow> ('d, 'z) service_scheme" where
  "emit ev s = s\<lparr>trace := trace s @ [ev]\<rparr>"

definition call ::
  "(nat \<Rightarrow> exn option) \<Rightarrow> 'd event \<Rightarrow> ('d, 'z) service_scheme
     \<Rightarrow> (exn + unit) \<times> ('d, 'z) service_scheme" where
  "call raises ev s =
     (case raises (now s) of
        None \<Rightarrow> (Inr (), emit ev s)
      | Some e \<Rightarrow> (Inl e, emit ev s))"

definition andthen ::
  "('s \<Rightarrow> (exn + 'a) \<times> 's) \<Rightarrow> ('a \<Rightarrow> 's \<Rightarrow> (exn + 'b) \<times> 's) \<Rightarrow> 's \<Rightarrow> (exn + 'b) \<times> 's" where
  "andthen m f s = (case m s of (Inl e, s1) \<Rightarrow> (Inl e, s1) | (Inr a, s1) \<Rightarrow> f a s1)"

text \<open>
  \<^verbatim>\<open>time.sleep\<close> turns the length into nanoseconds on 64 bits and raises
  \<^verbatim>\<open>OverflowError\<close> when it does not fit, that is beyond 9223372036 seconds either way;
  it raises \<^verbatim>\<open>ValueError\<close> on a negative length, and an interrupt can end it.
\<close>

definition time_sleep ::
  "'e env_scheme \<Rightarrow> int \<Rightarrow> ('d, 'z) service_scheme \<Rightarrow> (exn + unit) \<times> ('d, 'z) service_scheme" where
  "time_sleep env secs s =
     (if secs < - 9223372036 \<or> 9223372036 < secs then (Inl (Exception ''OverflowError''), s)
      else if secs < 0 then (Inl (Exception ''ValueError''), s)
      else if sleep_interrupted env (now s) then (Inl KeyboardInterrupt, emit (Sleep secs) s)
      else (Inr (), emit (Sleep secs) s))"

definition datetime_utcnow ::
  "'e env_scheme \<Rightarrow> ('d, 'z) service_scheme \<Rightarrow> string \<times> ('d, 'z) service_scheme" where
  "datetime_utcnow env s = (utcnow env (now s), emit UtcNow s)"

subsection \<open>connect_rabbitmq, the same in both classes but for the names\<close>

definition max_retries :: nat where
  "max_retries = 5"

definition retry_delay :: int where
  "retry_delay = 5"

definition failed_to_connect :: string where
  "failed_to_connect = ''Failed to connect to RabbitMQ (attempt {attempt + 1}/{max_retries}): {e}''"

text \<open>The body of the \<^verbatim>\<open>try\<close>: one attempt.\<close>

definition try_connect ::
  "'e env_scheme \<Rightarrow> string \<Rightarrow> string \<Rightarrow> ('d, 'z) service_scheme
     \<Rightarrow> (exn + unit) \<times> ('d, 'z) service_scheme" where
  "try_connect env exchange queue s =
     (case call (BlockingConnection_raises env) BlockingConnection s of
        (Inl e, s1) \<Rightarrow> (Inl e, s1)
      | (Inr _, s1) \<Rightarrow>
          (case call (channel_raises env) Channel (s1\<lparr>connection := Some (now s)\<rparr>) of
             (Inl e, s2) \<Rightarrow> (Inl e, s2)
           | (Inr _, s2) \<Rightarrow>
               andthen (call (channel_raises env) (ExchangeDeclare exchange ''fanout'' True)) (\<lambda>_.
               andthen (call (channel_raises env) (QueueDeclare queue True)) (\<lambda>_.
               andthen (call (channel_raises env) (QueueBind exchange queue)) (\<lambda>_ s3.
                 (Inr (), emit (LogInfo ''Successfully connected to RabbitMQ'') s3))))
                 (s2\<lparr>channel := Some (now s1)\<rparr>)))"

text \<open>\<^verbatim>\<open>for attempt in range(max_retries)\<close>, over the list of the attempts left.\<close>

fun connect_attempts ::
  "'e env_scheme \<Rightarrow> string \<Rightarrow> string \<Rightarrow> nat list \<Rightarrow> ('d, 'z) service_scheme
     \<Rightarrow> (exn + unit) \<times> ('d, 'z) service_scheme" where
  "connect_attempts env exchange queue [] s = (Inr (), s)"
| "connect_attempts env exchange queue (attempt # rest) s =
     (case try_connect env exchange queue s of
        (Inr _, s1) \<Rightarrow> (Inr (), s1)
      | (Inl e, s1) \<Rightarrow>
          if is_Exception e then
            (let s2 = emit (LogError failed_to_connect) s1
             in if attempt < max_retries - 1 then
                  (case time_sleep env retry_delay s2 of
                     (Inl e', s3) \<Rightarrow> (Inl e', s3)
                   | (Inr _, s3) \<Rightarrow> connect_attempts env exchange queue rest s3)
                else (Inl e, s2))
          else (Inl e, s1))"

definition connect_rabbitmq ::
  "'e env_scheme \<Rightarrow> string \<Rightarrow> string \<Rightarrow> ('d, 'z) service_scheme
     \<Rightarrow> (exn + unit) \<times> ('d, 'z) service_scheme" where
  "connect_rabbitmq env exchange queue s =
     connect_attempts env exchange queue [0..<max_retries] s"

subsection \<open>publish_news and publish_data, the same but for the names\<close>

definition publish ::
  "'e env_scheme \<Rightarrow> string \<Rightarrow> string \<Rightarrow> string \<Rightarrow> string \<Rightarrow> 'd \<Rightarrow> ('d, 'z) service_scheme
     \<Rightarrow> (exn + unit) \<times> ('d, 'z) service_scheme" where
  "publish env exchange queue info err d s =
     (case call (basic_publish_raises env)
             (BasicPublish exchange '''' (json_dumps d) 2 ''application/json'') s of
        (Inr _, s1) \<Rightarrow> (Inr (), emit (LogInfo info) s1)
      | (Inl e, s1) \<Rightarrow>
          if is_Exception e then connect_rabbitmq env exchange queue (emit (LogError err) s1)
          else (Inl e, s1))"

subsection \<open>GNewsService\<close>

definition MARKET_TOPICS :: "string list" where
  "MARKET_TOPICS =
     [''stock market'', ''nasdaq'', ''dow jones'', ''S&P 500'', ''cryptocurrency'', ''bitcoin'',
      ''ethereum'', ''federal reserve'', ''interest rates'', ''inflation'', ''market crash'',
      ''market rally'']"

text \<open>\<^verbatim>\<open>d.get(key, default)\<close> on a key that is present or absent.\<close>

definition dict_get :: "'a option \<Rightarrow> 'a \<Rightarrow> 'a" where
  "dict_get v dflt = (case v of None \<Rightarrow> dflt | Some x \<Rightarrow> x)"

definition GNewsService_connect_rabbitmq ::
  "'e env_scheme \<Rightarrow> ('d, 'z) service_scheme \<Rightarrow> (exn + unit) \<times> ('d, 'z) service_scheme" where
  "GNewsService_connect_rabbitmq env s = connect_rabbitmq env ''market_news'' ''news_queue'' s"

definition GNewsService_init :: "'e env_scheme \<Rightarrow> (exn + unit) \<times> news_data service" where
  "GNewsService_init env =
     GNewsService_connect_rabbitmq env \<lparr>connection = None, channel = None, trace = []\<rparr>"

definition fetch_news ::
  "'e news_env_scheme \<Rightarrow> string \<Rightarrow> ('d, 'z) service_scheme
     \<Rightarrow> (exn + article list) \<times> ('d, 'z) service_scheme" where
  "fetch_news env tp s =
     (let s1 = emit (LogInfo ''Fetching news for topic: {topic}'') s;
          r = get_news env (now s1);
          s2 = emit (GetNews tp r) s1
      in case r of
           Inr articles \<Rightarrow> (Inr articles, s2)
         | Inl e \<Rightarrow>
             if is_Exception e
             then (Inr [], emit (LogError ''Error fetching news for {topic}: {e}'') s2)
             else (Inl e, s2))"

definition publish_news ::
  "'e env_scheme \<Rightarrow> news_data \<Rightarrow> (news_data, 'z) service_scheme
     \<Rightarrow> (exn + unit) \<times> (news_data, 'z) service_scheme" where
  "publish_news env d s =
     publish env ''market_news'' ''news_queue''
       ''Published news: {title}'' ''Error publishing news: {e}'' d s"

definition process_article ::
  "'e env_scheme \<Rightarrow> article \<Rightarrow> string \<Rightarrow> ('d, 'z) service_scheme
     \<Rightarrow> news_data \<times> ('d, 'z) service_scheme" where
  "process_article env a tp s =
     (let (t1, s1) = datetime_utcnow env s;
          (t2, s2) = datetime_utcnow env s1
      in (\<lparr>title = dict_get (a_title a) [],
           description = dict_get (a_description a) [],
           url = dict_get (a_url a) [],
           source = dict_get (a_publisher_title a) ''Unknown'',
           published_at = dict_get (a_published_date a) t1,
           topic = tp,
           fetched_at = t2\<rparr>, s2))"

text \<open>
  The cache \<^verbatim>\<open>processed_urls\<close> is a set. \<^verbatim>\<open>list(processed_urls)\<close> lists it in an order the
  language does not fix: \<open>lst\<close>. \<^verbatim>\<open>xs[-5000:]\<close> is the last 5000 elements, all of \<open>xs\<close> when
  it is shorter.
\<close>

definition last_slice :: "nat \<Rightarrow> 'a list \<Rightarrow> 'a list" where
  "last_slice n xs = drop (length xs - n) xs"

definition mark :: "(string fset \<Rightarrow> string list) \<Rightarrow> string fset \<Rightarrow> string \<Rightarrow> string fset" where
  "mark lst processed_urls u =
     (let added = finsert u processed_urls
      in if fcard added > 10000 then fset_of_list (last_slice 5000 (lst added)) else added)"

text \<open>\<^verbatim>\<open>for article in articles\<close>; the state is the cache and the service.\<close>

fun for_articles ::
  "'e news_env_scheme \<Rightarrow> string \<Rightarrow> article list \<Rightarrow> string fset \<times> (news_data, 'z) service_scheme
     \<Rightarrow> (exn + unit) \<times> string fset \<times> (news_data, 'z) service_scheme" where
  "for_articles env tp [] (processed_urls, s) = (Inr (), (processed_urls, s))"
| "for_articles env tp (a # articles) (processed_urls, s) =
     (let u = dict_get (a_url a) []
      in if u \<noteq> [] \<and> u |\<notin>| processed_urls then
           (let (news, s1) = process_article env a tp s
            in case publish_news env news s1 of
                 (Inl e, s2) \<Rightarrow> (Inl e, (processed_urls, s2))
               | (Inr _, s2) \<Rightarrow>
                   for_articles env tp articles
                     (mark (list_of_set env (now s2)) processed_urls u, s2))
         else for_articles env tp articles (processed_urls, s))"

text \<open>\<^verbatim>\<open>for topic in MARKET_TOPICS\<close>.\<close>

fun for_topics ::
  "'e news_env_scheme \<Rightarrow> string list \<Rightarrow> string fset \<times> (news_data, 'z) service_scheme
     \<Rightarrow> (exn + unit) \<times> string fset \<times> (news_data, 'z) service_scheme" where
  "for_topics env [] (processed_urls, s) = (Inr (), (processed_urls, s))"
| "for_topics env (tp # topics) (processed_urls, s) =
     (case fetch_news env tp s of
        (Inl e, s1) \<Rightarrow> (Inl e, (processed_urls, s1))
      | (Inr articles, s1) \<Rightarrow>
          (case for_articles env tp articles (processed_urls, s1) of
             (Inl e, st2) \<Rightarrow> (Inl e, st2)
           | (Inr _, (processed_urls2, s2)) \<Rightarrow>
               (case time_sleep env 2 s2 of
                  (Inl e, s3) \<Rightarrow> (Inl e, (processed_urls2, s3))
                | (Inr _, s3) \<Rightarrow> for_topics env topics (processed_urls2, s3))))"

text \<open>The body of the \<^verbatim>\<open>try\<close> in \<^verbatim>\<open>run\<close>: one cycle.\<close>

definition news_cycle ::
  "'e news_env_scheme \<Rightarrow> string fset \<times> (news_data, 'z) service_scheme
     \<Rightarrow> (exn + unit) \<times> string fset \<times> (news_data, 'z) service_scheme" where
  "news_cycle env st =
     (case for_topics env MARKET_TOPICS st of
        (Inl e, st1) \<Rightarrow> (Inl e, st1)
      | (Inr _, (processed_urls, s1)) \<Rightarrow>
          (case time_sleep env (CHECK_INTERVAL env)
                  (emit (LogInfo ''Completed news check cycle. Sleeping for {CHECK_INTERVAL} seconds...'') s1) of
             (r, s2) \<Rightarrow> (r, (processed_urls, s2))))"

text \<open>
  \<^verbatim>\<open>while True\<close> runs until it is left; the fuel counts the turns of the loop, and
  \<open>Running\<close> is the loop still turning when the fuel is spent.
\<close>

datatype outcome = Running | Returned | Raised exn

fun news_loop ::
  "'e news_env_scheme \<Rightarrow> nat \<Rightarrow> string fset \<times> (news_data, 'z) service_scheme
     \<Rightarrow> outcome \<times> string fset \<times> (news_data, 'z) service_scheme" where
  "news_loop env 0 st = (Running, st)"
| "news_loop env (Suc n) st =
     (case news_cycle env st of
        (Inr _, st1) \<Rightarrow> news_loop env n st1
      | (Inl e, (processed_urls, s1)) \<Rightarrow>
          if e = KeyboardInterrupt
          then (Returned, (processed_urls, emit (LogInfo ''Shutting down GNews Service...'') s1))
          else (case time_sleep env 30 (emit (LogError ''Error in main loop: {e}'') s1) of
                  (Inl e', s2) \<Rightarrow> (Raised e', (processed_urls, s2))
                | (Inr _, s2) \<Rightarrow> news_loop env n (processed_urls, s2)))"

definition GNewsService_run ::
  "'e news_env_scheme \<Rightarrow> nat \<Rightarrow> (news_data, 'z) service_scheme
     \<Rightarrow> outcome \<times> (news_data, 'z) service_scheme" where
  "GNewsService_run env fuel s =
     (let s1 = emit (LogInfo ''GNews Service started'') s;
          s2 = emit (LogInfo ''Monitoring topics: {topics}'') s1;
          s3 = emit (LogInfo ''Check interval: {CHECK_INTERVAL} seconds'') s2
      in case news_loop env fuel ({||}, s3) of (out, (processed_urls, s4)) \<Rightarrow> (out, s4))"

definition GNewsService_close ::
  "'e env_scheme \<Rightarrow> ('d, 'z) service_scheme \<Rightarrow> ('d, 'z) service_scheme" where
  "GNewsService_close env s =
     (if connection s \<noteq> None \<and> \<not> is_closed env (now s)
      then emit (LogInfo ''RabbitMQ connection closed'') (emit ConnectionClose s)
      else s)"

text \<open>
  The \<^verbatim>\<open>__main__\<close> block: the constructor, then \<^verbatim>\<open>run\<close> under \<^verbatim>\<open>try\<close> with \<^verbatim>\<open>close\<close> in
  \<^verbatim>\<open>finally\<close>. The process ends with status 0 when \<^verbatim>\<open>run\<close> returns and with another status
  when an exception leaves the block.
\<close>

definition GNewsService_main :: "'e news_env_scheme \<Rightarrow> nat \<Rightarrow> outcome \<times> news_data service" where
  "GNewsService_main env fuel =
     (case GNewsService_init env of
        (Inl e, s) \<Rightarrow> (Raised e, s)
      | (Inr _, s) \<Rightarrow>
          (case GNewsService_run env fuel s of
             (Running, s1) \<Rightarrow> (Running, s1)
           | (out, s1) \<Rightarrow> (out, GNewsService_close env s1)))"

fun exit_status :: "outcome \<Rightarrow> nat option" where
  "exit_status Running = None"
| "exit_status Returned = Some 0"
| "exit_status (Raised e) = Some 1"

subsection \<open>StatusInvestScraper\<close>

definition BRAZILIAN_STOCKS :: "string list" where
  "BRAZILIAN_STOCKS =
     [''PETR4'', ''VALE3'', ''ITUB4'', ''BBDC4'', ''ABEV3'',
      ''B3SA3'', ''WEGE3'', ''RENT3'', ''MGLU3'', ''SUZB3'']"

definition BASE_URL :: string where
  "BASE_URL = ''https://statusinvest.com.br/acoes''"

definition char_lower :: "char \<Rightarrow> char" where
  "char_lower c =
     (let n = (of_char c :: nat) in if 65 \<le> n \<and> n \<le> 90 then char_of (n + 32) else c)"

definition lower :: "string \<Rightarrow> string" where
  "lower s = map char_lower s"

definition StatusInvestScraper_connect_rabbitmq ::
  "'e env_scheme \<Rightarrow> ('d, 'z) service_scheme \<Rightarrow> (exn + unit) \<times> ('d, 'z) service_scheme" where
  "StatusInvestScraper_connect_rabbitmq env s =
     connect_rabbitmq env ''fundamental_data'' ''fundamentals_queue'' s"

definition StatusInvestScraper_init :: "'e env_scheme \<Rightarrow> (exn + unit) \<times> stock_data scraper" where
  "StatusInvestScraper_init env =
     StatusInvestScraper_connect_rabbitmq env
       \<lparr>connection = None, channel = None, trace = [], session_open = True\<rparr>"

definition mock_data :: "string \<Rightarrow> pynum option" where
  "mock_data =
     map_of [(''dividend-yield'', PyFloat 5.5), (''p-vp'', PyFloat 2.3), (''p-l'', PyFloat 15.2),
             (''roe'', PyFloat 18.5), (''liquidity'', PyInt 1000000)]"

definition extract_indicator ::
  "string \<Rightarrow> string \<Rightarrow> ('d, 'z) service_scheme \<Rightarrow> pynum option \<times> ('d, 'z) service_scheme" where
  "extract_indicator soup indicator_name s =
     (Some (dict_get (mock_data indicator_name) (PyFloat 0.0)),
      emit (LogWarning ''Using mock data for {indicator_name} - implement actual HTML parsing for production'') s)"

text \<open>\<^verbatim>\<open>response.raise_for_status()\<close> raises an \<^verbatim>\<open>HTTPError\<close>, a \<^verbatim>\<open>RequestException\<close>.\<close>

definition raise_for_status :: "response \<Rightarrow> exn option" where
  "raise_for_status r =
     (if 400 \<le> status_code r \<and> status_code r < 600 then Some (RequestException ''HTTPError'')
      else None)"

text \<open>The body of the \<^verbatim>\<open>try\<close> in \<^verbatim>\<open>scrape_stock\<close>.\<close>

definition scrape_body ::
  "'e scraper_env_scheme \<Rightarrow> string \<Rightarrow> ('d, 'z) service_scheme
     \<Rightarrow> (exn + stock_data) \<times> ('d, 'z) service_scheme" where
  "scrape_body env symb s =
     (let u = BASE_URL @ ''/'' @ lower symb;
          s1 = emit (LogInfo ''Scraping data for {symbol} from {url}'') s;
          r = session_get env (now s1);
          s2 = emit (SessionGet u 10 r) s1
      in case r of
           Inl e \<Rightarrow> (Inl e, s2)
         | Inr resp \<Rightarrow>
             (case raise_for_status resp of
                Some e \<Rightarrow> (Inl e, s2)
              | None \<Rightarrow>
                  (let soup = content resp;
                       (dy, s3) = extract_indicator soup ''dividend-yield'' s2;
                       (pvp, s4) = extract_indicator soup ''p-vp'' s3;
                       (pl, s5) = extract_indicator soup ''p-l'' s4;
                       (r_o_e, s6) = extract_indicator soup ''roe'' s5;
                       (liq, s7) = extract_indicator soup ''liquidity'' s6;
                       (t, s8) = datetime_utcnow env s7
                   in (Inr \<lparr>symbol = symb, dividend_yield = dy, p_vp = pvp, p_l = pl,
                             roe = r_o_e, liquidity = liq, scraped_at = t\<rparr>,
                       emit (LogInfo ''Successfully scraped data for {symbol}'') s8))))"

definition scrape_stock ::
  "'e scraper_env_scheme \<Rightarrow> string \<Rightarrow> ('d, 'z) service_scheme
     \<Rightarrow> (exn + stock_data option) \<times> ('d, 'z) service_scheme" where
  "scrape_stock env symb s =
     (case scrape_body env symb s of
        (Inr d, s1) \<Rightarrow> (Inr (Some d), s1)
      | (Inl e, s1) \<Rightarrow>
          if is_RequestException e
          then (Inr None, emit (LogError ''Error scraping {symbol}: {e}'') s1)
          else if is_Exception e
          then (Inr None, emit (LogError ''Unexpected error scraping {symbol}: {e}'') s1)
          else (Inl e, s1))"

definition publish_data ::
  "'e env_scheme \<Rightarrow> stock_data \<Rightarrow> (stock_data, 'z) service_scheme
     \<Rightarrow> (exn + unit) \<times> (stock_data, 'z) service_scheme" where
  "publish_data env d s =
     publish env ''fundamental_data'' ''fundamentals_queue''
       ''Published fundamental data for {symbol}'' ''Error publishing data: {e}'' d s"

text \<open>
  \<^verbatim>\<open>for symbol in BRAZILIAN_STOCKS\<close>. \<^verbatim>\<open>scrape_stock\<close> returns a dictionary or \<^verbatim>\<open>None\<close>,
  and the loop publishes under \<^verbatim>\<open>if data:\<close>; the dictionary always has its seven keys, so
  it is never empty.
\<close>

fun for_symbols ::
  "'e scraper_env_scheme \<Rightarrow> string list \<Rightarrow> (stock_data, 'z) service_scheme
     \<Rightarrow> (exn + unit) \<times> (stock_data, 'z) service_scheme" where
  "for_symbols env [] s = (Inr (), s)"
| "for_symbols env (symb # symbols) s =
     (case scrape_stock env symb s of
        (Inl e, s1) \<Rightarrow> (Inl e, s1)
      | (Inr data, s1) \<Rightarrow>
          (case (case data of None \<Rightarrow> (Inr (), s1) | Some d \<Rightarrow> publish_data env d s1) of
             (Inl e, s2) \<Rightarrow> (Inl e, s2)
           | (Inr _, s2) \<Rightarrow>
               (case time_sleep env 3 s2 of
                  (Inl e, s3) \<Rightarrow> (Inl e, s3)
                | (Inr _, s3) \<Rightarrow> for_symbols env symbols s3)))"

definition scraper_cycle ::
  "'e scraper_env_scheme \<Rightarrow> (stock_data, 'z) service_scheme
     \<Rightarrow> (exn + unit) \<times> (stock_data, 'z) service_scheme" where
  "scraper_cycle env s =
     (case for_symbols env BRAZILIAN_STOCKS s of
        (Inl e, s1) \<Rightarrow> (Inl e, s1)
      | (Inr _, s1) \<Rightarrow>
          time_sleep env (CHECK_INTERVAL env)
            (emit (LogInfo ''Completed scraping cycle. Sleeping for {CHECK_INTERVAL} seconds...'') s1))"

fun scraper_loop ::
  "'e scraper_env_scheme \<Rightarrow> nat \<Rightarrow> (stock_data, 'z) service_scheme
     \<Rightarrow> outcome \<times> (stock_data, 'z) service_scheme" where
  "scraper_loop env 0 s = (Running, s)"
| "scraper_loop env (Suc n) s =
     (case scraper_cycle env s of
        (Inr _, s1) \<Rightarrow> scraper_loop env n s1
      | (Inl e, s1) \<Rightarrow>
          if e = KeyboardInterrupt
          then (Returned, emit (LogInfo ''Shutting down Scraping Worker...'') s1)
          else (case time_sleep env 30 (emit (LogError ''Error in main loop: {e}'') s1) of
                  (Inl e', s2) \<Rightarrow> (Raised e', s2)
                | (Inr _, s2) \<Rightarrow> scraper_loop env n s2))"

definition StatusInvestScraper_run ::
  "'e scraper_env_scheme \<Rightarrow> nat \<Rightarrow> (stock_data, 'z) service_scheme
     \<Rightarrow> outcome \<times> (stock_data, 'z) service_scheme" where
  "StatusInvestScraper_run env fuel s =
     (let s1 = emit (LogInfo ''Scraping Worker started'') s;
          s2 = emit (LogInfo ''Monitoring {n} Brazilian stocks'') s1;
          s3 = emit (LogInfo ''Check interval: {CHECK_INTERVAL} seconds'') s2
      in scraper_loop env fuel s3)"

definition StatusInvestScraper_close ::
  "'e env_scheme \<Rightarrow> ('d, 'z) scraper_scheme \<Rightarrow> ('d, 'z) scraper_scheme" where
  "StatusInvestScraper_close env s =
     (let s1 = (if connection s \<noteq> None \<and> \<not> is_closed env (now s)
                then emit (LogInfo ''RabbitMQ connection closed'') (emit ConnectionClose s)
                else s)
      in emit (LogInfo ''HTTP session closed'') (emit SessionClose (s1\<lparr>session_open := False\<rparr>)))"

definition StatusInvestScraper_main ::
  "'e scraper_env_scheme \<Rightarrow> nat \<Rightarrow> outcome \<times> stock_data scraper" where
  "StatusInvestScraper_main env fuel =
     (case StatusInvestScraper_init env of
        (Inl e, s) \<Rightarrow> (Raised e, s)
      | (Inr _, s) \<Rightarrow>
          (case StatusInvestScraper_run env fuel s of
             (Running, s1) \<Rightarrow> (Running, s1)
           | (out, s1) \<Rightarrow> (out, StatusInvestScraper_close env s1)))"

subsection \<open>What a trace says\<close>

text \<open>The records handed to \<^verbatim>\<open>basic_publish\<close>, in order.\<close>

fun published_of :: "'d event \<Rightarrow> 'd list" where
  "published_of (BasicPublish exchange routing_key (json_dumps d) dm ct) = [d]"
| "published_of ev = []"

definition published :: "'d event list \<Rightarrow> 'd list" where
  "published tr = concat (map published_of tr)"

text \<open>The identities that are not empty among the articles the news client returned.\<close>

fun fetched_of :: "'d event \<Rightarrow> string list" where
  "fetched_of (GetNews tp (Inr articles)) =
     filter (\<lambda>u. u \<noteq> []) (map (\<lambda>a. dict_get (a_url a) []) articles)"
| "fetched_of ev = []"

definition fetched :: "'d event list \<Rightarrow> string list" where
  "fetched tr = concat (map fetched_of tr)"

text \<open>What is known of \<^verbatim>\<open>list(a_set)\<close>: every element of the set, once.\<close>

definition enumerates :: "('a fset \<Rightarrow> 'a list) \<Rightarrow> bool" where
  "enumerates lst = (\<forall>S. set (lst S) = fset S \<and> distinct (lst S))"

text \<open>Conditions on the outside.\<close>

definition broker_refuses :: "'e env_scheme \<Rightarrow> bool" where
  "broker_refuses env = (\<forall>t. \<exists>e. BlockingConnection_raises env t = Some e \<and> is_Exception e)"

definition sleeps_through :: "'e env_scheme \<Rightarrow> bool" where
  "sleeps_through env = (\<forall>t. \<not> sleep_interrupted env t)"

definition broker_uninterrupted :: "'e env_scheme \<Rightarrow> bool" where
  "broker_uninterrupted env =
     (\<forall>t. \<not> sleep_interrupted env t \<and>
          BlockingConnection_raises env t \<noteq> Some KeyboardInterrupt \<and>
          channel_raises env t \<noteq> Some KeyboardInterrupt \<and>
          basic_publish_raises env t \<noteq> Some KeyboardInterrupt)"

definition failed_attempt :: "'d event list" where
  "failed_attempt = [BlockingConnection, LogError failed_to_connect]"

definition five_failed_attempts :: "'d event list" where
  "five_failed_attempts =
     failed_attempt @ [Sleep 5] @ failed_attempt @ [Sleep 5] @ failed_attempt @ [Sleep 5] @
     failed_attempt @ [Sleep 5] @ failed_attempt"

definition declared :: "string \<Rightarrow> string \<Rightarrow> 'd event list" where
  "declared exchange queue =
     [BlockingConnection, Channel, ExchangeDeclare exchange ''fanout'' True,
      QueueDeclare queue True, QueueBind exchange queue,
      LogInfo ''Successfully connected to RabbitMQ'']"

text \<open>A step from \<open>s\<close> to \<open>s'\<close> that only appends events, none a publish or a fetch.\<close>

definition quiet :: "('d, 'z) service_scheme \<Rightarrow> ('d, 'z) service_scheme \<Rightarrow> bool" where
  "quiet s s' = (\<exists>ext. trace s' = trace s @ ext \<and> published ext = [] \<and> fetched ext = [])"

text \<open>
  No prune in a stretch of the news loop that goes from the cache \<open>P\<close> and the state \<open>s\<close>
  to the cache \<open>P'\<close> and the state \<open>s'\<close>, a cycle at most. The loop adds an identity to
  the cache after every call of \<^verbatim>\<open>publish_news\<close> that returns, and only an identity that
  is not in the cache is published; a call that raises ends the cycle. So without a prune
  the cache grows by one for every record handed to \<^verbatim>\<open>basic_publish\<close>, the last one
  excepted when its call raised. A prune leaves at most 5000 identities of more than
  10000, and after it the cache is too small for that.
\<close>

definition unpruned ::
  "string fset \<Rightarrow> ('d, 'z) service_scheme \<Rightarrow> string fset \<Rightarrow> ('d, 'z) service_scheme \<Rightarrow> bool" where
  "unpruned P s P' s' =
     (fcard P + length (published (trace s')) \<le> Suc (fcard P') + length (published (trace s)))"

text \<open>
  What a stretch of the news loop does to the cache when it prunes nothing: from the cache
  \<open>P\<close> and the state \<open>s\<close> it ends with the result \<open>r\<close>, the cache \<open>P'\<close> and the state
  \<open>s'\<close>. The identities it published are \<open>new\<close>, each once, none in \<open>P\<close> and all among
  the identities \<open>got\<close> that were fetched; the cache grew by identities among them, and
  when the stretch ended without an exception the cache holds all of them and every
  identity that was fetched.
\<close>

definition dedup_step ::
  "string fset \<Rightarrow> (news_data, 'z) service_scheme \<Rightarrow> exn + unit \<Rightarrow>
   string fset \<Rightarrow> (news_data, 'z) service_scheme \<Rightarrow> bool" where
  "dedup_step P s r P' s' =
     (\<exists>new got.
        map url (published (trace s')) = map url (published (trace s)) @ new \<and>
        fetched (trace s') = fetched (trace s) @ got \<and>
        distinct new \<and> fset P \<inter> set new = {} \<and> set new \<subseteq> set got \<and>
        fset P \<subseteq> fset P' \<and> fset P' \<subseteq> fset P \<union> set new \<and>
        (r = Inr () \<longrightarrow> fset P' = fset P \<union> set new \<and> set got \<subseteq> fset P'))"

text \<open>An outside where every page is served, every publish is taken and no sleep is cut.\<close>

definition scraping_succeeds :: "'e scraper_env_scheme \<Rightarrow> bool" where
  "scraping_succeeds env =
     (\<forall>t. (\<exists>resp. session_get env t = Inr resp \<and> raise_for_status resp = None) \<and>
          basic_publish_raises env t = None \<and> \<not> sleep_interrupted env t)"

text \<open>Counting the connection attempts and the delays between them in a trace.\<close>

definition attempts :: "'d event list \<Rightarrow> nat" where
  "attempts tr = length (filter (\<lambda>ev. ev = BlockingConnection) tr)"

definition delays :: "'d event list \<Rightarrow> nat" where
  "delays tr = length (filter (\<lambda>ev. ev = Sleep retry_delay) tr)"

subsection \<open>Particular outsides and states\<close>

text \<open>\<open>calm\<close>: nothing fails. \<open>broker_down\<close>: the broker refuses every connection.
  \<open>lossy\<close>: the broker accepts connections and fails every publish.\<close>

definition calm :: env where
  "calm = \<lparr>BlockingConnection_raises = (\<lambda>t. None), channel_raises = (\<lambda>t. None),
     basic_publish_raises = (\<lambda>t. None), sleep_interrupted = (\<lambda>t. False),
     is_closed = (\<lambda>t. False), utcnow = (\<lambda>t. ''2024-01-01T00:00:00''),
     CHECK_INTERVAL = 300\<rparr>"

definition broker_down :: env where
  "broker_down = calm\<lparr>BlockingConnection_raises := (\<lambda>t. Some (Exception ''Connection refused''))\<rparr>"

definition lossy :: env where
  "lossy = calm\<lparr>basic_publish_raises := (\<lambda>t. Some (Exception ''Channel closed''))\<rparr>"

definition with_news :: "env \<Rightarrow> (nat \<Rightarrow> exn + article list) \<Rightarrow> news_env" where
  "with_news e g =
     \<lparr>BlockingConnection_raises = BlockingConnection_raises e, channel_raises = channel_raises e,
      basic_publish_raises = basic_publish_raises e, sleep_interrupted = sleep_interrupted e,
      is_closed = is_closed e, utcnow = utcnow e, CHECK_INTERVAL = CHECK_INTERVAL e,
      get_news = g, list_of_set = (\<lambda>t. sorted_list_of_fset)\<rparr>"

definition with_session :: "env \<Rightarrow> (nat \<Rightarrow> exn + response) \<Rightarrow> scraper_env" where
  "with_session e g =
     \<lparr>BlockingConnection_raises = BlockingConnection_raises e, channel_raises = channel_raises e,
      basic_publish_raises = basic_publish_raises e, sleep_interrupted = sleep_interrupted e,
      is_closed = is_closed e, utcnow = utcnow e, CHECK_INTERVAL = CHECK_INTERVAL e,
      session_get = g\<rparr>"

definition story :: article where
  "story = \<lparr>a_title = Some ''A'', a_description = None, a_url = Some ''https://x/1'',
     a_publisher_title = None, a_published_date = None\<rparr>"

definition untitled :: article where
  "untitled = \<lparr>a_title = Some ''B'', a_description = None, a_url = Some [],
     a_publisher_title = None, a_published_date = None\<rparr>"

definition pages :: "nat \<Rightarrow> exn + response" where
  "pages t = Inr \<lparr>status_code = 200, content = ''<html></html>''\<rparr>"

definition newsy :: news_env where
  "newsy = with_news calm (\<lambda>t. Inr [story])"

definition steady :: scraper_env where
  "steady = with_session calm pages"

text \<open>A service right after a first successful connection.\<close>

definition connected :: "news_data service" where
  "connected = \<lparr>connection = Some 0, channel = Some 1,
     trace = declared ''market_news'' ''news_queue''\<rparr>"

definition many_urls :: "nat \<Rightarrow> string list" where
  "many_urls n = map (\<lambda>k. replicate k CHR ''x'') [0..<n]"

definition connected_scraper :: "stock_data scraper" where
  "connected_scraper = \<lparr>connection = Some 0, channel = Some 1,
     trace = declared ''fundamental_data'' ''fundamentals_queue'', session_open = True\<rparr>"

text \<open>\<open>silent\<close>: the news client times out. \<open>unreachable\<close>: the site times out.
  \<open>broken\<close>: the request ends with an error that is no \<^verbatim>\<open>RequestException\<close>.
  \<open>missing\<close>: the site answers 404.\<close>

definition silent :: news_env where
  "silent = with_news calm (\<lambda>t. Inl (Exception ''timed out''))"

definition unreachable :: scraper_env where
  "unreachable = with_session calm (\<lambda>t. Inl (RequestException ''timed out''))"

definition broken :: scraper_env where
  "broken = with_session calm (\<lambda>t. Inl (Exception ''Connection reset''))"

definition missing :: scraper_env where
  "missing = with_session calm (\<lambda>t. Inr \<lparr>status_code = 404, content = []\<rparr>)"

text \<open>\<open>outage\<close>: the broker refuses every connection and fails every publish, while the
  news client goes on returning the same article. \<open>scraper_outage\<close>: the same broker, and
  the site serves its pages. \<open>lossy_news\<close>: the broker fails every publish and accepts
  every connection.\<close>

definition outage :: news_env where
  "outage = with_news (broker_down\<lparr>basic_publish_raises := (\<lambda>t. Some (Exception ''Channel closed''))\<rparr>)
     (\<lambda>t. Inr [story])"

definition scraper_outage :: scraper_env where
  "scraper_outage =
     with_session (broker_down\<lparr>basic_publish_raises := (\<lambda>t. Some (Exception ''Channel closed''))\<rparr>)
       pages"

definition lossy_news :: news_env where
  "lossy_news = with_news lossy (\<lambda>t. Inr [story])"

text \<open>The record that \<^verbatim>\<open>process_article\<close> makes of \<open>story\<close>, and a record of a stock.\<close>

definition headline :: news_data where
  "headline = \<lparr>title = ''A'', description = [], url = ''https://x/1'', source = ''Unknown'',
     published_at = ''2024-01-01T00:00:00'', topic = ''bitcoin'',
     fetched_at = ''2024-01-01T00:00:00''\<rparr>"

definition petr4 :: stock_data where
  "petr4 = \<lparr>symbol = ''PETR4'', dividend_yield = Some (PyFloat 5.5), p_vp = Some (PyFloat 2.3),
     p_l = Some (PyFloat 15.2), roe = Some (PyFloat 18.5), liquidity = Some (PyInt 1000000),
     scraped_at = ''2024-01-01T00:00:00''\<rparr>"

text \<open>From the time \<open>k\<close> on the broker refuses every connection and fails every publish,
  and no sleep is cut short.\<close>

definition broker_out_from :: "nat \<Rightarrow> 'e env_scheme \<Rightarrow> bool" where
  "broker_out_from k env =
     (\<forall>t\<ge>k. (\<exists>e. BlockingConnection_raises env t = Some e \<and> is_Exception e) \<and>
            (\<exists>e. basic_publish_raises env t = Some e \<and> is_Exception e) \<and>
            \<not> sleep_interrupted env t)"

text \<open>\<open>interrupted_news\<close>, \<open>interrupted_scraper\<close>: the interrupt arrives during the first
  request to the source.\<close>

definition interrupted_news :: news_env where
  "interrupted_news = with_news calm (\<lambda>t. Inl KeyboardInterrupt)"

definition interrupted_scraper :: scraper_env where
  "interrupted_scraper = with_session calm (\<lambda>t. Inl KeyboardInterrupt)"

text \<open>\<open>reconnect_refused\<close>: the broker accepts the first connection, at startup, and from
  then on refuses every connection and fails every publish, while the news client goes on
  returning the same article.\<close>

definition reconnect_refused :: news_env where
  "reconnect_refused =
     with_news
       (calm\<lparr>BlockingConnection_raises :=
                (\<lambda>t. if t = 0 then None else Some (Exception ''Connection refused'')),
              basic_publish_raises := (\<lambda>t. Some (Exception ''Channel closed''))\<rparr>)
       (\<lambda>t. Inr [story])"

text \<open>An outside where the news client always returns the one article \<open>a\<close>, every publish
  is taken and no sleep is cut.\<close>

definition news_flows :: "'e news_env_scheme \<Rightarrow> article \<Rightarrow> bool" where
  "news_flows env a =
     (\<forall>t. get_news env t = Inr [a] \<and> basic_publish_raises env t = None \<and>
          \<not> sleep_interrupted env t)"

text \<open>\<open>hasty\<close>: the news client always returns the same article and nothing fails, but
  the interval between the cycles is set to a negative number of seconds.\<close>

definition hasty :: news_env where
  "hasty = with_news (calm\<lparr>CHECK_INTERVAL := - 1\<rparr>) (\<lambda>t. Inr [story])"

section \<open>Lemmas\<close>

subsection \<open>Traces\<close>

lemma now_emit [simp]: "now (emit ev s) = Suc (now s)"
  by (simp add: now_def emit_def)

lemma trace_emit [simp]: "trace (emit ev s) = trace s @ [ev]"
  by (simp add: emit_def)

lemma connection_emit [simp]: "connection (emit ev s) = connection s"
  by (simp add: emit_def)

lemma now_update [simp]:
  "now (s\<lparr>connection := c\<rparr>) = now s" "now (s\<lparr>channel := ch\<rparr>) = now s"
  by (simp_all add: now_def)

lemma published_simps [simp]:
  "published [] = []" "published (ev # tr) = published_of ev @ published tr"
  "published (tr @ tr') = published tr @ published tr'"
  by (simp_all add: published_def)

lemma fetched_simps [simp]:
  "fetched [] = []" "fetched (ev # tr) = fetched_of ev @ fetched tr"
  "fetched (tr @ tr') = fetched tr @ fetched tr'"
  by (simp_all add: fetched_def)

lemma quiet_refl [simp]: "quiet s s"
  by (simp add: quiet_def)

lemma quiet_trans: "quiet s s1 \<Longrightarrow> quiet s1 s2 \<Longrightarrow> quiet s s2"
  by (auto simp: quiet_def)

lemma quiet_emit:
  "published_of ev = [] \<Longrightarrow> fetched_of ev = [] \<Longrightarrow> quiet s s1 \<Longrightarrow> quiet s (emit ev s1)"
  by (auto simp: quiet_def)

lemma quiet_update:
  "quiet s s1 \<Longrightarrow> quiet s (s1\<lparr>connection := c\<rparr>)"
  "quiet s s1 \<Longrightarrow> quiet s (s1\<lparr>channel := ch\<rparr>)"
  by (auto simp: quiet_def)

lemma quiet_published: "quiet s s' \<Longrightarrow> published (trace s') = published (trace s)"
  by (auto simp: quiet_def)

lemma quiet_fetched: "quiet s s' \<Longrightarrow> fetched (trace s') = fetched (trace s)"
  by (auto simp: quiet_def)

lemma quiet_prefix: "quiet s s' \<Longrightarrow> prefix (trace s) (trace s')"
  by (auto simp: quiet_def)

lemma quiet_call:
  "published_of ev = [] \<Longrightarrow> fetched_of ev = [] \<Longrightarrow> quiet s s1 \<Longrightarrow>
   quiet s (snd (call raises ev s1))"
  by (simp add: call_def quiet_emit split: option.splits)

lemma quiet_time_sleep: "quiet s s1 \<Longrightarrow> quiet s (snd (time_sleep env secs s1))"
  by (simp add: time_sleep_def quiet_emit)

lemma quiet_try_connect: "quiet s s1 \<Longrightarrow> quiet s (snd (try_connect env exchange queue s1))"
  by (simp add: try_connect_def call_def andthen_def quiet_emit quiet_update
      split: option.splits)

lemma quiet_connect_attempts:
  "quiet s s1 \<Longrightarrow> quiet s (snd (connect_attempts env exchange queue atts s1))"
proof (induction atts arbitrary: s1)
  case Nil
  then show ?case by simp
next
  case (Cons attempt rest)
  obtain r s2 where t: "try_connect env exchange queue s1 = (r, s2)"
    by (cases "try_connect env exchange queue s1")
  from quiet_try_connect [OF Cons.prems, of env exchange queue] t
  have q2: "quiet s s2" by simp
  let ?s3 = "emit (LogError failed_to_connect) s2"
  have q3: "quiet s ?s3" using q2 by (simp add: quiet_emit)
  obtain r' s4 where sl: "time_sleep env retry_delay ?s3 = (r', s4)"
    by (cases "time_sleep env retry_delay ?s3")
  from quiet_time_sleep [OF q3, of env retry_delay] sl have q4: "quiet s s4" by simp
  show ?case
    using t sl q2 q3 q4 Cons.IH [OF q4]
    by (auto simp: Let_def split: sum.splits)
qed

lemma quiet_connect_rabbitmq:
  "quiet s s1 \<Longrightarrow> quiet s (snd (connect_rabbitmq env exchange queue s1))"
  by (simp add: connect_rabbitmq_def quiet_connect_attempts)

lemma publish_first_event:
  "quiet (emit (BasicPublish exchange [] (json_dumps d) 2 ''application/json'') s)
         (snd (publish env exchange queue info err d s))"
  by (simp add: publish_def call_def quiet_emit quiet_connect_rabbitmq split: option.splits)

lemma published_publish:
  "published (trace (snd (publish env exchange queue info err d s))) = published (trace s) @ [d]"
  using quiet_published [OF publish_first_event [of exchange d s env queue info err]] by simp

lemma fetched_publish:
  "fetched (trace (snd (publish env exchange queue info err d s))) = fetched (trace s)"
  using quiet_fetched [OF publish_first_event [of exchange d s env queue info err]] by simp

subsection \<open>Five refused attempts\<close>

lemma try_connect_refused:
  "BlockingConnection_raises env (now s) = Some e \<Longrightarrow>
   try_connect env exchange queue s = (Inl e, emit BlockingConnection s)"
  by (simp add: try_connect_def call_def)

lemma connect_attempts_retry:
  assumes "BlockingConnection_raises env (now s) = Some e" and "is_Exception e"
    and "attempt < 4" and "\<not> sleep_interrupted env (now s + 2)"
  shows "connect_attempts env exchange queue (attempt # rest) s =
         connect_attempts env exchange queue rest
           (emit (Sleep 5) (emit (LogError failed_to_connect) (emit BlockingConnection s)))"
  using assms
  by (simp add: try_connect_refused time_sleep_def max_retries_def retry_delay_def)

lemma connect_attempts_give_up:
  assumes "BlockingConnection_raises env (now s) = Some e" and "is_Exception e"
    and "\<not> attempt < 4"
  shows "connect_attempts env exchange queue (attempt # rest) s =
         (Inl e, emit (LogError failed_to_connect) (emit BlockingConnection s))"
  using assms
  by (simp add: try_connect_refused max_retries_def)

lemma range_max_retries: "[0..<max_retries] = [0, 1, 2, 3, 4]"
  by (simp add: max_retries_def upt_rec)

lemma connect_rabbitmq_exhausted_within:
  assumes refused:
      "\<forall>t\<in>{now s..now s + 12}. \<exists>e. BlockingConnection_raises env t = Some e \<and> is_Exception e"
    and awake: "\<forall>t\<in>{now s..now s + 12}. \<not> sleep_interrupted env t"
  shows "\<exists>e. BlockingConnection_raises env (now s + 12) = Some e \<and> is_Exception e \<and>
           connect_rabbitmq env exchange queue s =
             (Inl e, s\<lparr>trace := trace s @ five_failed_attempts\<rparr>)"
proof -
  define s1 where "s1 = emit (Sleep 5) (emit (LogError failed_to_connect) (emit BlockingConnection s))"
  define s2 where "s2 = emit (Sleep 5) (emit (LogError failed_to_connect) (emit BlockingConnection s1))"
  define s3 where "s3 = emit (Sleep 5) (emit (LogError failed_to_connect) (emit BlockingConnection s2))"
  define s4 where "s4 = emit (Sleep 5) (emit (LogError failed_to_connect) (emit BlockingConnection s3))"
  have later: "now s1 = now s + 3" "now s2 = now s + 6" "now s3 = now s + 9" "now s4 = now s + 12"
    by (simp_all add: s1_def s2_def s3_def s4_def)
  have "now s + 2 \<in> {now s..now s + 12}" "now s1 + 2 \<in> {now s..now s + 12}"
    "now s2 + 2 \<in> {now s..now s + 12}" "now s3 + 2 \<in> {now s..now s + 12}"
    unfolding later by simp_all
  with awake have asleep: "\<not> sleep_interrupted env (now s + 2)"
    "\<not> sleep_interrupted env (now s1 + 2)" "\<not> sleep_interrupted env (now s2 + 2)"
    "\<not> sleep_interrupted env (now s3 + 2)"
    by blast+
  have "now s \<in> {now s..now s + 12}" "now s1 \<in> {now s..now s + 12}"
    "now s2 \<in> {now s..now s + 12}" "now s3 \<in> {now s..now s + 12}"
    "now s4 \<in> {now s..now s + 12}"
    unfolding later by simp_all
  with refused have r:
    "\<exists>e. BlockingConnection_raises env (now s) = Some e \<and> is_Exception e"
    "\<exists>e. BlockingConnection_raises env (now s1) = Some e \<and> is_Exception e"
    "\<exists>e. BlockingConnection_raises env (now s2) = Some e \<and> is_Exception e"
    "\<exists>e. BlockingConnection_raises env (now s3) = Some e \<and> is_Exception e"
    "\<exists>e. BlockingConnection_raises env (now s4) = Some e \<and> is_Exception e"
    by blast+
  from r(1) obtain e0 where e0: "BlockingConnection_raises env (now s) = Some e0" "is_Exception e0"
    by blast
  from r(2) obtain e1 where e1: "BlockingConnection_raises env (now s1) = Some e1" "is_Exception e1"
    by blast
  from r(3) obtain e2 where e2: "BlockingConnection_raises env (now s2) = Some e2" "is_Exception e2"
    by blast
  from r(4) obtain e3 where e3: "BlockingConnection_raises env (now s3) = Some e3" "is_Exception e3"
    by blast
  from r(5) obtain e4 where e4: "BlockingConnection_raises env (now s4) = Some e4" "is_Exception e4"
    by blast
  have "connect_rabbitmq env exchange queue s = connect_attempts env exchange queue [1, 2, 3, 4] s1"
    unfolding connect_rabbitmq_def range_max_retries s1_def
    by (rule connect_attempts_retry [OF e0 _ asleep(1)]) simp
  also have "\<dots> = connect_attempts env exchange queue [2, 3, 4] s2"
    unfolding s2_def
    by (rule connect_attempts_retry [OF e1 _ asleep(2)]) simp
  also have "\<dots> = connect_attempts env exchange queue [3, 4] s3"
    unfolding s3_def
    by (rule connect_attempts_retry [OF e2 _ asleep(3)]) simp
  also have "\<dots> = connect_attempts env exchange queue [4] s4"
    unfolding s4_def
    by (rule connect_attempts_retry [OF e3 _ asleep(4)]) simp
  also have "\<dots> = (Inl e4, emit (LogError failed_to_connect) (emit BlockingConnection s4))"
    by (rule connect_attempts_give_up [OF e4]) simp
  finally have "connect_rabbitmq env exchange queue s =
      (Inl e4, emit (LogError failed_to_connect) (emit BlockingConnection s4))" .
  moreover have "emit (LogError failed_to_connect) (emit BlockingConnection s4) =
      s\<lparr>trace := trace s @ five_failed_attempts\<rparr>"
    by (simp add: s4_def s3_def s2_def s1_def emit_def failed_attempt_def five_failed_attempts_def)
  ultimately show ?thesis using e4 later by auto
qed

lemma connect_rabbitmq_exhausted_from:
  assumes refused: "\<forall>t\<ge>now s. \<exists>e. BlockingConnection_raises env t = Some e \<and> is_Exception e"
    and awake: "\<forall>t\<ge>now s. \<not> sleep_interrupted env t"
  shows "\<exists>e. BlockingConnection_raises env (now s + 12) = Some e \<and> is_Exception e \<and>
           connect_rabbitmq env exchange queue s =
             (Inl e, s\<lparr>trace := trace s @ five_failed_attempts\<rparr>)"
  using assms by (intro connect_rabbitmq_exhausted_within) simp_all

lemma connect_rabbitmq_exhausted:
  assumes "broker_refuses env" and "sleeps_through env"
  shows "\<exists>e. BlockingConnection_raises env (now s + 12) = Some e \<and> is_Exception e \<and>
           connect_rabbitmq env exchange queue s =
             (Inl e, s\<lparr>trace := trace s @ five_failed_attempts\<rparr>)"
  using assms
  by (intro connect_rabbitmq_exhausted_from) (simp_all add: broker_refuses_def sleeps_through_def)

subsection \<open>A successful connection\<close>

lemma try_connect_ok:
  "try_connect env exchange queue s = (Inr u, s') \<Longrightarrow>
   trace s' = trace s @ declared exchange queue"
  by (auto simp: try_connect_def call_def andthen_def declared_def split: option.splits)

lemma connect_attempts_ok:
  "connect_attempts env exchange queue atts s = (Inr u, s') \<Longrightarrow> atts \<noteq> [] \<Longrightarrow>
   max_retries - 1 \<le> last atts \<Longrightarrow>
   \<exists>mid. trace s' = trace s @ mid @ declared exchange queue"
proof (induction atts arbitrary: s)
  case Nil
  then show ?case by simp
next
  case (Cons attempt rest)
  obtain r s1 where t: "try_connect env exchange queue s = (r, s1)"
    by (cases "try_connect env exchange queue s")
  show ?case
  proof (cases r)
    case (Inr x)
    with t Cons.prems(1) have "s' = s1" by simp
    with t Inr try_connect_ok [of env exchange queue s x s1] show ?thesis by simp
  next
    case (Inl e)
    let ?s2 = "emit (LogError failed_to_connect) s1"
    obtain r' s3 where sl: "time_sleep env retry_delay ?s2 = (r', s3)"
      by (cases "time_sleep env retry_delay ?s2")
    from t Inl sl Cons.prems(1)
    have rec: "connect_attempts env exchange queue rest s3 = (Inr u, s')"
      and lt: "attempt < max_retries - 1"
      by (auto simp: Let_def split: if_splits sum.splits)
    from lt Cons.prems(3) have ne: "rest \<noteq> []" by (cases rest) auto
    with Cons.prems(3) have "max_retries - 1 \<le> last rest" by simp
    from Cons.IH [OF rec ne this] obtain mid
      where mid: "trace s' = trace s3 @ mid @ declared exchange queue" by blast
    from quiet_try_connect [OF quiet_refl, of s env exchange queue] t
    have "prefix (trace s) (trace s1)" by (auto dest: quiet_prefix)
    moreover from quiet_time_sleep [OF quiet_refl, of ?s2 env retry_delay] sl
    have "prefix (trace ?s2) (trace s3)" by (auto dest: quiet_prefix)
    ultimately obtain a b where "trace s1 = trace s @ a" "trace s3 = trace ?s2 @ b"
      by (auto simp: prefix_def)
    with mid show ?thesis by simp
  qed
qed

lemma connect_rabbitmq_ok:
  assumes "connect_rabbitmq env exchange queue s = (Inr u, s')"
  shows "\<exists>mid. trace s' = trace s @ mid @ declared exchange queue"
proof -
  have "[0..<max_retries] \<noteq> []" "max_retries - 1 \<le> last [0..<max_retries]"
    by (simp_all add: max_retries_def)
  with assms show ?thesis
    unfolding connect_rabbitmq_def by (rule connect_attempts_ok)
qed

subsection \<open>Interrupts\<close>

lemma call_uninterrupted:
  "raises (now s) \<noteq> Some KeyboardInterrupt \<Longrightarrow> fst (call raises ev s) \<noteq> Inl KeyboardInterrupt"
  by (auto simp: call_def split: option.splits)

lemma time_sleep_uninterrupted:
  "broker_uninterrupted env \<Longrightarrow> fst (time_sleep env secs s) \<noteq> Inl KeyboardInterrupt"
  by (simp add: time_sleep_def broker_uninterrupted_def)

lemma time_sleep_uninterruptedD:
  "broker_uninterrupted env \<Longrightarrow> time_sleep env secs s = (Inl KeyboardInterrupt, s') \<Longrightarrow> False"
  using time_sleep_uninterrupted [of env secs s] by simp

lemma time_sleep_raises:
  "time_sleep env secs s = (Inl e, s') \<Longrightarrow> 0 \<le> secs \<Longrightarrow> secs \<le> 9223372036 \<Longrightarrow>
   e = KeyboardInterrupt"
  by (simp add: time_sleep_def split: if_splits)

lemma try_connect_uninterrupted:
  "broker_uninterrupted env \<Longrightarrow> fst (try_connect env exchange queue s) \<noteq> Inl KeyboardInterrupt"
  by (auto simp: try_connect_def call_def andthen_def broker_uninterrupted_def
      split: option.splits)

lemma connect_attempts_uninterrupted:
  assumes "broker_uninterrupted env"
  shows "fst (connect_attempts env exchange queue atts s) \<noteq> Inl KeyboardInterrupt"
proof (induction atts arbitrary: s)
  case Nil
  then show ?case by simp
next
  case (Cons attempt rest)
  obtain r s1 where t: "try_connect env exchange queue s = (r, s1)"
    by (cases "try_connect env exchange queue s")
  with try_connect_uninterrupted [OF assms, of exchange queue s]
  have r: "r \<noteq> Inl KeyboardInterrupt" by simp
  let ?s2 = "emit (LogError failed_to_connect) s1"
  obtain r' s3 where sl: "time_sleep env retry_delay ?s2 = (r', s3)"
    by (cases "time_sleep env retry_delay ?s2")
  with time_sleep_uninterrupted [OF assms, of retry_delay ?s2]
  have r': "r' \<noteq> Inl KeyboardInterrupt" by simp
  show ?case
    using t sl r r' Cons.IH [of s3]
    by (auto simp: Let_def split: sum.splits)
qed

lemma publish_uninterrupted:
  "broker_uninterrupted env \<Longrightarrow>
   fst (publish env exchange queue info err d s) \<noteq> Inl KeyboardInterrupt"
  by (auto simp: publish_def call_def connect_rabbitmq_def connect_attempts_uninterrupted
      broker_uninterrupted_def split: option.splits)

lemma publish_uninterruptedD:
  "broker_uninterrupted env \<Longrightarrow>
   publish env exchange queue info err d s = (Inl KeyboardInterrupt, s') \<Longrightarrow> False"
  using publish_uninterrupted [of env exchange queue info err d s] by simp

lemma fetch_news_uninterrupted:
  "\<forall>t. get_news env t \<noteq> Inl KeyboardInterrupt \<Longrightarrow>
   fst (fetch_news env tp s) \<noteq> Inl KeyboardInterrupt"
  by (auto simp: fetch_news_def Let_def split: sum.splits)

lemma for_articles_uninterrupted:
  assumes "broker_uninterrupted env"
  shows "fst (for_articles env tp articles st) \<noteq> Inl KeyboardInterrupt"
proof (induction articles arbitrary: st)
  case Nil
  then show ?case by (cases st) simp
next
  case (Cons a articles)
  obtain P s where st: "st = (P, s)" by (cases st)
  obtain news s1 where p: "process_article env a tp s = (news, s1)"
    by (cases "process_article env a tp s")
  obtain r s2 where pb: "publish_news env news s1 = (r, s2)"
    by (cases "publish_news env news s1")
  with publish_uninterruptedD [OF assms]
  have "r \<noteq> Inl KeyboardInterrupt" by (auto simp: publish_news_def)
  then show ?case
    using st p pb Cons.IH by (auto simp: Let_def split: sum.splits)
qed

lemma for_topics_uninterrupted:
  assumes "broker_uninterrupted env" and "\<forall>t. get_news env t \<noteq> Inl KeyboardInterrupt"
  shows "fst (for_topics env topics st) \<noteq> Inl KeyboardInterrupt"
proof (induction topics arbitrary: st)
  case Nil
  then show ?case by (cases st) simp
next
  case (Cons tp topics)
  obtain P s where st: "st = (P, s)" by (cases st)
  obtain r s1 where f: "fetch_news env tp s = (r, s1)" by (cases "fetch_news env tp s")
  with fetch_news_uninterrupted [OF assms(2), of tp s]
  have r: "r \<noteq> Inl KeyboardInterrupt" by simp
  show ?case
  proof (cases r)
    case (Inl e)
    with r f st show ?thesis by simp
  next
    case (Inr articles)
    obtain r2 P2 s2 where fa: "for_articles env tp articles (P, s1) = (r2, (P2, s2))"
      by (cases "for_articles env tp articles (P, s1)") auto
    with for_articles_uninterrupted [OF assms(1), of tp articles "(P, s1)"]
    have r2: "r2 \<noteq> Inl KeyboardInterrupt" by simp
    obtain r3 s3 where sl: "time_sleep env 2 s2 = (r3, s3)" by (cases "time_sleep env 2 s2")
    with time_sleep_uninterrupted [OF assms(1), of 2 s2]
    have r3: "r3 \<noteq> Inl KeyboardInterrupt" by simp
    show ?thesis
      using st f Inr fa sl r2 r3 Cons.IH [of "(P2, s3)"]
      by (auto split: sum.splits)
  qed
qed

lemma news_cycle_uninterrupted:
  assumes "broker_uninterrupted env" and "\<forall>t. get_news env t \<noteq> Inl KeyboardInterrupt"
  shows "fst (news_cycle env st) \<noteq> Inl KeyboardInterrupt"
proof -
  obtain r P s where ft: "for_topics env MARKET_TOPICS st = (r, (P, s))"
    by (cases "for_topics env MARKET_TOPICS st") auto
  with for_topics_uninterrupted [OF assms, of MARKET_TOPICS st]
  have "r \<noteq> Inl KeyboardInterrupt" by simp
  then show ?thesis
    using ft time_sleep_uninterruptedD [OF assms(1)]
    by (auto simp: news_cycle_def split: sum.splits prod.splits)
qed

lemma news_loop_uninterrupted:
  assumes "broker_uninterrupted env" and "\<forall>t. get_news env t \<noteq> Inl KeyboardInterrupt"
  shows "fst (news_loop env n st) = Running"
proof (induction n arbitrary: st)
  case 0
  then show ?case by simp
next
  case (Suc n)
  obtain r P s where c: "news_cycle env st = (r, (P, s))"
    by (cases "news_cycle env st") auto
  with news_cycle_uninterrupted [OF assms, of st] have r: "r \<noteq> Inl KeyboardInterrupt" by simp
  let ?s1 = "emit (LogError ''Error in main loop: {e}'') s"
  obtain r2 s2 where sl: "time_sleep env 30 ?s1 = (r2, s2)" by (cases "time_sleep env 30 ?s1")
  with time_sleep_uninterrupted [OF assms(1), of 30 ?s1] time_sleep_raises [of env 30 ?s1 _ s2]
  have "\<exists>u. r2 = Inr u" by (cases r2) auto
  then show ?case
    using c r sl Suc.IH by (auto split: sum.splits)
qed

lemma news_loop_outcome:
  "fst (news_loop env n st) = Raised e \<Longrightarrow> e = KeyboardInterrupt"
proof (induction n arbitrary: st)
  case 0
  then show ?case by simp
next
  case (Suc n)
  obtain r P s where c: "news_cycle env st = (r, (P, s))"
    by (cases "news_cycle env st") auto
  let ?s1 = "emit (LogError ''Error in main loop: {e}'') s"
  obtain r2 s2 where sl: "time_sleep env 30 ?s1 = (r2, s2)" by (cases "time_sleep env 30 ?s1")
  show ?case
    using Suc.prems c sl Suc.IH time_sleep_raises [of env 30 ?s1 _ s2]
    by (auto split: sum.splits if_splits)
qed

subsection \<open>The scraper\<close>

lemma scrape_stock_uninterrupted:
  "\<forall>t. session_get env t \<noteq> Inl KeyboardInterrupt \<Longrightarrow>
   fst (scrape_stock env symb s) \<noteq> Inl KeyboardInterrupt"
  by (auto simp: scrape_stock_def scrape_body_def Let_def raise_for_status_def
      extract_indicator_def datetime_utcnow_def
      split: sum.splits option.splits prod.splits if_splits)

lemma for_symbols_uninterrupted:
  assumes "broker_uninterrupted env" and "\<forall>t. session_get env t \<noteq> Inl KeyboardInterrupt"
  shows "fst (for_symbols env symbols s) \<noteq> Inl KeyboardInterrupt"
proof (induction symbols arbitrary: s)
  case Nil
  then show ?case by simp
next
  case (Cons symb symbols)
  obtain r s1 where f: "scrape_stock env symb s = (r, s1)" by (cases "scrape_stock env symb s")
  with scrape_stock_uninterrupted [OF assms(2), of symb s]
  have r: "r \<noteq> Inl KeyboardInterrupt" by simp
  show ?case
  proof (cases r)
    case (Inl e)
    with r f show ?thesis by simp
  next
    case (Inr data)
    define pub where
      "pub = (case data of None \<Rightarrow> (Inr (), s1) | Some d \<Rightarrow> publish_data env d s1)"
    obtain r2 s2 where p: "pub = (r2, s2)" by (cases pub)
    have "fst pub \<noteq> Inl KeyboardInterrupt"
      unfolding pub_def
      by (simp add: publish_data_def publish_uninterrupted [OF assms(1)] split: option.splits)
    with p have r2: "r2 \<noteq> Inl KeyboardInterrupt" by simp
    obtain r3 s3 where sl: "time_sleep env 3 s2 = (r3, s3)" by (cases "time_sleep env 3 s2")
    with time_sleep_uninterrupted [OF assms(1), of 3 s2]
    have r3: "r3 \<noteq> Inl KeyboardInterrupt" by simp
    show ?thesis
      using f Inr p [unfolded pub_def] sl r2 r3 Cons.IH [of s3]
      by (auto split: sum.splits)
  qed
qed

lemma scraper_cycle_uninterrupted:
  assumes "broker_uninterrupted env" and "\<forall>t. session_get env t \<noteq> Inl KeyboardInterrupt"
  shows "fst (scraper_cycle env s) \<noteq> Inl KeyboardInterrupt"
proof -
  obtain r s1 where ft: "for_symbols env BRAZILIAN_STOCKS s = (r, s1)"
    by (cases "for_symbols env BRAZILIAN_STOCKS s")
  with for_symbols_uninterrupted [OF assms, of BRAZILIAN_STOCKS s]
  have "r \<noteq> Inl KeyboardInterrupt" by simp
  then show ?thesis
    using ft
    by (auto simp: scraper_cycle_def time_sleep_uninterrupted [OF assms(1)] split: sum.splits)
qed

lemma scraper_loop_uninterrupted:
  assumes "broker_uninterrupted env" and "\<forall>t. session_get env t \<noteq> Inl KeyboardInterrupt"
  shows "fst (scraper_loop env n s) = Running"
proof (induction n arbitrary: s)
  case 0
  then show ?case by simp
next
  case (Suc n)
  obtain r s0 where c: "scraper_cycle env s = (r, s0)" by (cases "scraper_cycle env s")
  with scraper_cycle_uninterrupted [OF assms, of s] have r: "r \<noteq> Inl KeyboardInterrupt" by simp
  let ?s1 = "emit (LogError ''Error in main loop: {e}'') s0"
  obtain r2 s2 where sl: "time_sleep env 30 ?s1 = (r2, s2)" by (cases "time_sleep env 30 ?s1")
  with time_sleep_uninterrupted [OF assms(1), of 30 ?s1] time_sleep_raises [of env 30 ?s1 _ s2]
  have "\<exists>u. r2 = Inr u" by (cases r2) auto
  then show ?case
    using c r sl Suc.IH by (auto split: sum.splits)
qed

lemma scraper_loop_outcome:
  "fst (scraper_loop env n s) = Raised e \<Longrightarrow> e = KeyboardInterrupt"
proof (induction n arbitrary: s)
  case 0
  then show ?case by simp
next
  case (Suc n)
  obtain r s0 where c: "scraper_cycle env s = (r, s0)" by (cases "scraper_cycle env s")
  let ?s1 = "emit (LogError ''Error in main loop: {e}'') s0"
  obtain r2 s2 where sl: "time_sleep env 30 ?s1 = (r2, s2)" by (cases "time_sleep env 30 ?s1")
  show ?case
    using Suc.prems c sl Suc.IH time_sleep_raises [of env 30 ?s1 _ s2]
    by (auto split: sum.splits if_splits)
qed

subsection \<open>The capacity of the cache\<close>

lemma fcard_fset_of_list: "distinct xs \<Longrightarrow> fcard (fset_of_list xs) = length xs"
  by (simp add: fcard.rep_eq fset_of_list.rep_eq distinct_card)

lemma mark_no_prune: "fcard (finsert u P) \<le> 10000 \<Longrightarrow> mark lst P u = finsert u P"
  by (simp add: mark_def Let_def)

lemma mark_prune:
  assumes "enumerates lst" and "fcard (finsert u P) > 10000"
  shows "fcard (mark lst P u) = 5000 \<and> mark lst P u |\<subseteq>| finsert u P"
proof -
  let ?xs = "lst (finsert u P)"
  from assms(1) have xs: "set ?xs = fset (finsert u P)" "distinct ?xs"
    by (simp_all add: enumerates_def)
  then have len: "length ?xs = fcard (finsert u P)"
    by (metis distinct_card fcard.rep_eq)
  have m: "mark lst P u = fset_of_list (last_slice 5000 ?xs)"
    using assms(2) by (simp add: mark_def Let_def)
  have "distinct (last_slice 5000 ?xs)"
    using xs(2) by (simp add: last_slice_def)
  then have "fcard (mark lst P u) = length (last_slice 5000 ?xs)"
    unfolding m by (rule fcard_fset_of_list)
  also have "\<dots> = 5000"
    using len assms(2) by (simp add: last_slice_def)
  finally have c: "fcard (mark lst P u) = 5000" .
  have "set (last_slice 5000 ?xs) \<subseteq> set ?xs"
    unfolding last_slice_def by (rule set_drop_subset)
  then have "mark lst P u |\<subseteq>| finsert u P"
    unfolding m using xs(1) by (auto simp: fset_of_list_elem)
  with c show ?thesis by simp
qed

lemma mark_bound: "enumerates lst \<Longrightarrow> fcard (mark lst P u) \<le> 10000"
  using mark_prune [of lst u P] mark_no_prune [of u P lst]
  by (cases "fcard (finsert u P) > 10000") auto

lemma enumerates_sorted: "enumerates (sorted_list_of_fset :: string fset \<Rightarrow> string list)"
  by (simp add: enumerates_def sorted_list_of_fset.rep_eq)

lemma distinct_many_urls: "distinct (many_urls n)"
  unfolding many_urls_def
  by (rule iffD2[OF distinct_map]) (auto simp: inj_on_def dest: arg_cong[where f=length])

lemma fcard_many: "fcard (fset_of_list (many_urls n)) = n"
  by (simp add: fcard_fset_of_list distinct_many_urls) (simp add: many_urls_def)

lemma many_exceeds: "fcard (finsert u (fset_of_list (many_urls 10001))) > 10000"
  using fcard_finsert_le [of "fset_of_list (many_urls 10001)" u] by (simp add: fcard_many)

subsection \<open>The cache of the news loop\<close>

lemma quiet_process_article: "quiet s s1 \<Longrightarrow> quiet s (snd (process_article env a tp s1))"
  by (simp add: process_article_def datetime_utcnow_def quiet_emit)

lemma url_process_article: "url (fst (process_article env a tp s)) = dict_get (a_url a) []"
  by (simp add: process_article_def datetime_utcnow_def)

lemma published_publish_news:
  "published (trace (snd (publish_news env d s))) = published (trace s) @ [d]"
  "fetched (trace (snd (publish_news env d s))) = fetched (trace s)"
  by (simp_all add: publish_news_def published_publish fetched_publish)

lemma fetch_news_trace:
  "fetch_news env tp s = (r, s1) \<Longrightarrow>
   published (trace s1) = published (trace s) \<and>
   (case r of
      Inl e \<Rightarrow> fetched (trace s1) = fetched (trace s)
    | Inr articles \<Rightarrow>
        (\<exists>got. fetched (trace s1) = fetched (trace s) @ got \<and>
           set got = {u. u \<noteq> [] \<and> u \<in> (\<lambda>a. dict_get (a_url a) []) ` set articles}))"
  by (auto simp: fetch_news_def Let_def split: sum.splits if_splits)

lemma for_articles_skip:
  "dict_get (a_url a) [] = [] \<or> dict_get (a_url a) [] |\<in>| P \<Longrightarrow>
   for_articles env tp (a # articles) (P, s) = for_articles env tp articles (P, s)"
  by (auto simp: Let_def)

lemma for_articles_publish:
  "dict_get (a_url a) [] \<noteq> [] \<Longrightarrow> dict_get (a_url a) [] |\<notin>| P \<Longrightarrow>
   process_article env a tp s = (news, s1) \<Longrightarrow>
   for_articles env tp (a # articles) (P, s) =
     (case publish_news env news s1 of
        (Inl e, s2) \<Rightarrow> (Inl e, (P, s2))
      | (Inr _, s2) \<Rightarrow>
          for_articles env tp articles
            (mark (list_of_set env (now s2)) P (dict_get (a_url a) []), s2))"
  by (simp add: Let_def)

lemma published_for_articles:
  "for_articles env tp articles (P, s) = (r, (P', s')) \<Longrightarrow>
   length (published (trace s)) \<le> length (published (trace s'))"
proof (induction articles arbitrary: P s)
  case Nil
  then show ?case by simp
next
  case (Cons a articles)
  obtain news s1 where p: "process_article env a tp s = (news, s1)"
    by (cases "process_article env a tp s")
  obtain rp s2 where pb: "publish_news env news s1 = (rp, s2)"
    by (cases "publish_news env news s1")
  from quiet_process_article [OF quiet_refl, of s env a tp] p
  have "published (trace s1) = published (trace s)" by (auto dest: quiet_published)
  with published_publish_news(1) [of env news s1] pb
  have "length (published (trace s)) \<le> length (published (trace s2))" by simp
  then show ?case
    using Cons.prems p pb Cons.IH
    by (fastforce simp: Let_def split: if_splits sum.splits)
qed

lemma fcard_fset_of_list_le: "fcard (fset_of_list xs) \<le> length xs"
  by (simp add: fcard.rep_eq fset_of_list.rep_eq card_length)

lemma mark_pruned: "fcard (finsert u P) > 10000 \<Longrightarrow> fcard (mark lst P u) \<le> 5000"
proof -
  assume "fcard (finsert u P) > 10000"
  then have "mark lst P u = fset_of_list (last_slice 5000 (lst (finsert u P)))"
    by (simp add: mark_def Let_def)
  moreover have "length (last_slice 5000 (lst (finsert u P))) \<le> 5000"
    by (simp add: last_slice_def)
  ultimately show ?thesis
    using fcard_fset_of_list_le [of "last_slice 5000 (lst (finsert u P))"] by simp
qed

lemma mark_grows: "fcard (mark lst P u) \<le> Suc (fcard P)"
proof (cases "fcard (finsert u P) > 10000")
  case True
  from mark_pruned [OF True, of lst] True fcard_finsert_if [of u P] show ?thesis
    by (simp split: if_splits)
next
  case False
  then have "mark lst P u = finsert u P" by (simp add: mark_no_prune)
  with fcard_finsert_if [of u P] show ?thesis by (simp split: if_splits)
qed

lemma for_articles_grows:
  "for_articles env tp articles (P, s) = (r, (P', s')) \<Longrightarrow>
   fcard P' + length (published (trace s)) \<le> fcard P + length (published (trace s'))"
proof (induction articles arbitrary: P s)
  case Nil
  then show ?case by simp
next
  case (Cons a articles)
  define u where "u = dict_get (a_url a) []"
  show ?case
  proof (cases "u \<noteq> [] \<and> u |\<notin>| P")
    case False
    with Cons.prems have "for_articles env tp articles (P, s) = (r, (P', s'))"
      by (simp add: u_def for_articles_skip del: for_articles.simps)
    then show ?thesis by (rule Cons.IH)
  next
    case True
    obtain news s1 where p: "process_article env a tp s = (news, s1)"
      by (cases "process_article env a tp s")
    obtain rp s2 where pb: "publish_news env news s1 = (rp, s2)"
      by (cases "publish_news env news s1")
    from quiet_process_article [OF quiet_refl, of s env a tp] p
    have "published (trace s1) = published (trace s)" by (auto dest: quiet_published)
    with published_publish_news(1) [of env news s1] pb
    have q2: "published (trace s2) = published (trace s) @ [news]" by simp
    show ?thesis
    proof (cases rp)
      case (Inl e)
      with True p pb Cons.prems have "P' = P" "s' = s2"
        by (simp_all add: u_def for_articles_publish del: for_articles.simps)
      with q2 show ?thesis by simp
    next
      case (Inr x)
      define P1 where "P1 = mark (list_of_set env (now s2)) P u"
      from True p pb Inr Cons.prems
      have "for_articles env tp articles (P1, s2) = (r, (P', s'))"
        by (simp add: u_def P1_def for_articles_publish del: for_articles.simps)
      from Cons.IH [OF this] q2 mark_grows [of "list_of_set env (now s2)" P u]
      show ?thesis by (simp add: P1_def)
    qed
  qed
qed

text \<open>
  A prune at a mark shows at the end of the cycle: the stretch that starts with the
  article whose identity is marked with a prune is not \<open>unpruned\<close>.
\<close>

lemma prune_not_unpruned:
  assumes u: "dict_get (a_url a) [] \<noteq> []" "dict_get (a_url a) [] |\<notin>| P"
    and p: "process_article env a tp s = (news, s1)"
    and pb: "publish_news env news s1 = (Inr (), s2)"
    and big: "fcard (finsert (dict_get (a_url a) []) P) > 10000"
    and fa: "for_articles env tp (a # articles) (P, s) = (r, (P', s'))"
  shows "\<not> unpruned P s P' s'"
proof
  assume np: "unpruned P s P' s'"
  define P1 where "P1 = mark (list_of_set env (now s2)) P (dict_get (a_url a) [])"
  from u p pb fa have rec: "for_articles env tp articles (P1, s2) = (r, (P', s'))"
    by (simp add: P1_def for_articles_publish del: for_articles.simps)
  from quiet_process_article [OF quiet_refl, of s env a tp] p
  have "published (trace s1) = published (trace s)" by (auto dest: quiet_published)
  with published_publish_news(1) [of env news s1] pb
  have "published (trace s2) = published (trace s) @ [news]" by simp
  with for_articles_grows [OF rec]
  have "Suc (fcard P' + length (published (trace s))) \<le>
          fcard P1 + length (published (trace s'))" by simp
  moreover from mark_pruned [OF big, of "list_of_set env (now s2)"] have "fcard P1 \<le> 5000"
    by (simp add: P1_def)
  moreover from u(2) big have "10000 \<le> fcard P" by (simp add: fcard_finsert_disjoint)
  ultimately show False using np by (simp add: unpruned_def)
qed

lemma for_articles_dedup:
  assumes "for_articles env tp articles (P, s) = (r, (P', s'))"
    and "unpruned P s P' s'"
  shows "\<exists>new. map url (published (trace s')) = map url (published (trace s)) @ new \<and>
           fetched (trace s') = fetched (trace s) \<and>
           distinct new \<and> fset P \<inter> set new = {} \<and>
           set new \<subseteq> {u. u \<noteq> [] \<and> u \<in> (\<lambda>a. dict_get (a_url a) []) ` set articles} \<and>
           fset P \<subseteq> fset P' \<and> fset P' \<subseteq> fset P \<union> set new \<and>
           (r = Inr () \<longrightarrow> fset P' = fset P \<union> set new \<and>
              (\<forall>a\<in>set articles. dict_get (a_url a) [] \<noteq> [] \<longrightarrow>
                 dict_get (a_url a) [] \<in> fset P'))"
  using assms
proof (induction articles arbitrary: P s)
  case Nil
  then show ?case by simp
next
  case (Cons a articles)
  define u where "u = dict_get (a_url a) []"
  show ?case
  proof (cases "u \<noteq> [] \<and> u |\<notin>| P")
    case False
    with Cons.prems(1) have rec: "for_articles env tp articles (P, s) = (r, (P', s'))"
      by (simp add: u_def for_articles_skip del: for_articles.simps)
    from Cons.IH [OF rec Cons.prems(2)] obtain new where
      new: "map url (published (trace s')) = map url (published (trace s)) @ new"
        "fetched (trace s') = fetched (trace s)"
        "distinct new" "fset P \<inter> set new = {}"
        "set new \<subseteq> {u. u \<noteq> [] \<and> u \<in> (\<lambda>a. dict_get (a_url a) []) ` set articles}"
        "fset P \<subseteq> fset P'"
        "fset P' \<subseteq> fset P \<union> set new"
        "r = Inr () \<longrightarrow> fset P' = fset P \<union> set new \<and>
           (\<forall>a\<in>set articles. dict_get (a_url a) [] \<noteq> [] \<longrightarrow> dict_get (a_url a) [] \<in> fset P')"
      by blast
    from False new(6) have "u \<noteq> [] \<longrightarrow> u \<in> fset P'" by auto
    with new show ?thesis unfolding u_def [symmetric] by (intro exI [of _ new]) (auto simp: u_def)
  next
    case True
    obtain news s1 where p: "process_article env a tp s = (news, s1)"
      by (cases "process_article env a tp s")
    obtain rp s2 where pb: "publish_news env news s1 = (rp, s2)"
      by (cases "publish_news env news s1")
    from url_process_article [of env a tp s] p have un: "url news = u" by (simp add: u_def)
    from quiet_process_article [OF quiet_refl, of s env a tp] p
    have q1: "published (trace s1) = published (trace s)" "fetched (trace s1) = fetched (trace s)"
      by (auto dest: quiet_published quiet_fetched)
    with published_publish_news [of env news s1] pb
    have q2: "published (trace s2) = published (trace s) @ [news]"
      "fetched (trace s2) = fetched (trace s)" by simp_all
    show ?thesis
    proof (cases rp)
      case (Inl e)
      with True p pb Cons.prems(1) have "r = Inl e" "P' = P" "s' = s2"
        by (simp_all add: u_def for_articles_publish del: for_articles.simps)
      with q2 un True show ?thesis by (intro exI [of _ "[u]"]) (auto simp: u_def)
    next
      case (Inr x)
      define P1 where "P1 = mark (list_of_set env (now s2)) P u"
      from True p pb Inr Cons.prems(1)
      have rec: "for_articles env tp articles (P1, s2) = (r, (P', s'))"
        by (simp add: u_def P1_def for_articles_publish del: for_articles.simps)
      from True have c: "fcard (finsert u P) = Suc (fcard P)" by (simp add: fcard_finsert_disjoint)
      have np: "fcard (finsert u P) \<le> 10000"
      proof (rule ccontr)
        assume "\<not> fcard (finsert u P) \<le> 10000"
        then have "fcard (finsert (dict_get (a_url a) []) P) > 10000" by (simp add: u_def)
        from prune_not_unpruned [OF _ _ p _ this Cons.prems(1)] True pb Inr Cons.prems(2)
        show False by (simp add: u_def)
      qed
      then have P1: "P1 = finsert u P" unfolding P1_def by (rule mark_no_prune)
      from c P1 q2 Cons.prems(2) have "unpruned P1 s2 P' s'" by (simp add: unpruned_def)
      from Cons.IH [OF rec this] obtain new where
        new: "map url (published (trace s')) = map url (published (trace s2)) @ new"
          "fetched (trace s') = fetched (trace s2)"
          "distinct new" "fset P1 \<inter> set new = {}"
          "set new \<subseteq> {u. u \<noteq> [] \<and> u \<in> (\<lambda>a. dict_get (a_url a) []) ` set articles}"
          "fset P1 \<subseteq> fset P'"
          "fset P' \<subseteq> fset P1 \<union> set new"
          "r = Inr () \<longrightarrow> fset P' = fset P1 \<union> set new \<and>
             (\<forall>a\<in>set articles. dict_get (a_url a) [] \<noteq> [] \<longrightarrow> dict_get (a_url a) [] \<in> fset P')"
        by blast
      have "map url (published (trace s')) = map url (published (trace s)) @ (u # new)"
        using new(1) q2 un by simp
      moreover have "fetched (trace s') = fetched (trace s)" using new(2) q2 by simp
      moreover have "distinct (u # new)" using new(3,4) P1 by auto
      moreover have "fset P \<inter> set (u # new) = {}" using new(4) P1 True by auto
      moreover have "set (u # new) \<subseteq>
          {u. u \<noteq> [] \<and> u \<in> (\<lambda>a. dict_get (a_url a) []) ` set (a # articles)}"
        using new(5) True by (auto simp: u_def)
      moreover have "fset P \<subseteq> fset P'" using new(6) P1 by auto
      moreover have "fset P' \<subseteq> fset P \<union> set (u # new)" using new(7) P1 by auto
      moreover have "r = Inr () \<longrightarrow> fset P' = fset P \<union> set (u # new) \<and>
             (\<forall>b\<in>set (a # articles). dict_get (a_url b) [] \<noteq> [] \<longrightarrow>
                dict_get (a_url b) [] \<in> fset P')"
        using new(6,8) P1 by (auto simp: u_def)
      ultimately show ?thesis by (intro exI [of _ "u # new"]) blast
    qed
  qed
qed

lemma dedup_step_quiet: "quiet s s' \<Longrightarrow> dedup_step P s r P s'"
  unfolding dedup_step_def
  by (intro exI [of _ "[]"]) (auto dest: quiet_published quiet_fetched)

lemma dedup_step_then_quiet:
  "dedup_step P s (Inr ()) P' s1 \<Longrightarrow> quiet s1 s2 \<Longrightarrow> dedup_step P s r P' s2"
  using quiet_published [of s1 s2] quiet_fetched [of s1 s2]
  unfolding dedup_step_def by auto

lemma dedup_step_trans:
  assumes "dedup_step P s (Inr ()) P1 s1" and "dedup_step P1 s1 r P2 s2"
  shows "dedup_step P s r P2 s2"
proof -
  from assms(1) obtain new1 got1 where
    a: "map url (published (trace s1)) = map url (published (trace s)) @ new1"
      "fetched (trace s1) = fetched (trace s) @ got1"
      "distinct new1" "fset P \<inter> set new1 = {}" "fset P1 = fset P \<union> set new1"
      "set got1 \<subseteq> fset P1" "set new1 \<subseteq> set got1"
    unfolding dedup_step_def by auto
  from assms(2) obtain new2 got2 where
    b: "map url (published (trace s2)) = map url (published (trace s1)) @ new2"
      "fetched (trace s2) = fetched (trace s1) @ got2"
      "distinct new2" "fset P1 \<inter> set new2 = {}" "fset P1 \<subseteq> fset P2"
      "fset P2 \<subseteq> fset P1 \<union> set new2"
      "r = Inr () \<longrightarrow> fset P2 = fset P1 \<union> set new2 \<and> set got2 \<subseteq> fset P2"
      "set new2 \<subseteq> set got2"
    unfolding dedup_step_def by auto
  have "map url (published (trace s2)) = map url (published (trace s)) @ (new1 @ new2)"
    using a(1) b(1) by simp
  moreover have "fetched (trace s2) = fetched (trace s) @ (got1 @ got2)"
    using a(2) b(2) by simp
  moreover have "distinct (new1 @ new2)" using a(3,5) b(3,4) by auto
  moreover have "fset P \<inter> set (new1 @ new2) = {}" using a(4,5) b(4) by auto
  moreover have "set (new1 @ new2) \<subseteq> set (got1 @ got2)" using a(7) b(8) by auto
  moreover have "fset P \<subseteq> fset P2" using a(5) b(5) by auto
  moreover have "fset P2 \<subseteq> fset P \<union> set (new1 @ new2)" using a(5) b(6) by auto
  moreover have "r = Inr () \<longrightarrow> fset P2 = fset P \<union> set (new1 @ new2) \<and>
      set (got1 @ got2) \<subseteq> fset P2"
    using a(5,6) b(5,7) by auto
  ultimately show ?thesis unfolding dedup_step_def by blast
qed

lemma dedup_step_card:
  assumes "dedup_step P s (Inr ()) P' s'"
  shows "fcard P' + length (published (trace s)) = fcard P + length (published (trace s'))"
proof -
  from assms obtain new where
    a: "map url (published (trace s')) = map url (published (trace s)) @ new"
      "distinct new" "fset P \<inter> set new = {}" "fset P' = fset P \<union> set new"
    unfolding dedup_step_def by auto
  from a(1) have "length (published (trace s')) = length (published (trace s)) + length new"
    by (metis length_append length_map)
  moreover have "fcard P' = fcard P + length new"
    using a(2,3,4) by (simp add: fcard.rep_eq card_Un_disjoint distinct_card)
  ultimately show ?thesis by simp
qed

lemma published_time_sleep:
  "time_sleep env secs s = (r, s') \<Longrightarrow> published (trace s') = published (trace s)"
  using quiet_time_sleep [OF quiet_refl, of s env secs] by (auto dest: quiet_published)

text \<open>
  One turn of the loop over the topics, in its parts: the fetch, the loop over the
  articles, the sleep, and whether the loop goes on.
\<close>

lemma for_topics_turn:
  assumes "for_topics env (tp # topics) (P, s) = (r, (P', s'))"
  obtains e s1 where "fetch_news env tp s = (Inl e, s1)" "r = Inl e" "P' = P" "s' = s1"
  | articles s1 e s2 where "fetch_news env tp s = (Inr articles, s1)"
      "for_articles env tp articles (P, s1) = (Inl e, (P', s2))" "r = Inl e" "s' = s2"
  | articles s1 P2 s2 e s3 where "fetch_news env tp s = (Inr articles, s1)"
      "for_articles env tp articles (P, s1) = (Inr (), (P2, s2))"
      "time_sleep env 2 s2 = (Inl e, s3)" "r = Inl e" "P' = P2" "s' = s3"
  | articles s1 P2 s2 s3 where "fetch_news env tp s = (Inr articles, s1)"
      "for_articles env tp articles (P, s1) = (Inr (), (P2, s2))"
      "time_sleep env 2 s2 = (Inr (), s3)"
      "for_topics env topics (P2, s3) = (r, (P', s'))"
proof -
  obtain rf s1 where f: "fetch_news env tp s = (rf, s1)" by (cases "fetch_news env tp s")
  show ?thesis
  proof (cases rf)
    case (Inl e)
    with f assms that(1) show ?thesis by simp
  next
    case (Inr articles)
    obtain r2 P2 s2 where fa: "for_articles env tp articles (P, s1) = (r2, (P2, s2))"
      by (cases "for_articles env tp articles (P, s1)") auto
    show ?thesis
    proof (cases r2)
      case (Inl e)
      with f Inr fa assms have "r = Inl e" "P2 = P'" "s' = s2" by simp_all
      with f Inr fa Inl that(2) [of articles s1 e s2] show ?thesis by simp
    next
      case r2: (Inr x)
      obtain r3 s3 where sl: "time_sleep env 2 s2 = (r3, s3)" by (cases "time_sleep env 2 s2")
      show ?thesis
      proof (cases r3)
        case (Inl e)
        with f Inr fa r2 sl assms have "r = Inl e" "P' = P2" "s' = s3" by simp_all
        with f Inr fa r2 sl Inl that(3) [of articles s1 P2 s2 e s3] show ?thesis by simp
      next
        case (Inr y)
        with f \<open>rf = Inr articles\<close> fa r2 sl assms
        have "for_topics env topics (P2, s3) = (r, (P', s'))" by simp
        with f \<open>rf = Inr articles\<close> fa r2 sl Inr that(4) [of articles s1 P2 s2 s3]
        show ?thesis by simp
      qed
    qed
  qed
qed

lemma published_for_topics:
  "for_topics env topics (P, s) = (r, (P', s')) \<Longrightarrow>
   length (published (trace s)) \<le> length (published (trace s'))"
proof (induction topics arbitrary: P s)
  case Nil
  then show ?case by simp
next
  case (Cons tp topics)
  from Cons.prems show ?case
  proof (cases rule: for_topics_turn)
    case (1 e s1)
    with fetch_news_trace [OF 1(1)] show ?thesis by simp
  next
    case (2 articles s1 e s2)
    with fetch_news_trace [OF 2(1)] published_for_articles [OF 2(2)] show ?thesis by simp
  next
    case (3 articles s1 P2 s2 e s3)
    with fetch_news_trace [OF 3(1)] published_for_articles [OF 3(2)]
      published_time_sleep [OF 3(3)] show ?thesis by simp
  next
    case (4 articles s1 P2 s2 s3)
    with fetch_news_trace [OF 4(1)] published_for_articles [OF 4(2)]
      published_time_sleep [OF 4(3)] Cons.IH [OF 4(4)] show ?thesis by simp
  qed
qed

lemma for_topics_grows:
  "for_topics env topics (P, s) = (r, (P', s')) \<Longrightarrow>
   fcard P' + length (published (trace s)) \<le> fcard P + length (published (trace s'))"
proof (induction topics arbitrary: P s)
  case Nil
  then show ?case by simp
next
  case (Cons tp topics)
  from Cons.prems show ?case
  proof (cases rule: for_topics_turn)
    case (1 e s1)
    with fetch_news_trace [OF 1(1)] show ?thesis by simp
  next
    case (2 articles s1 e s2)
    with fetch_news_trace [OF 2(1)] for_articles_grows [OF 2(2)] show ?thesis by simp
  next
    case (3 articles s1 P2 s2 e s3)
    with fetch_news_trace [OF 3(1)] for_articles_grows [OF 3(2)]
      published_time_sleep [OF 3(3)] show ?thesis by simp
  next
    case (4 articles s1 P2 s2 s3)
    with fetch_news_trace [OF 4(1)] for_articles_grows [OF 4(2)]
      published_time_sleep [OF 4(3)] Cons.IH [OF 4(4)] show ?thesis by simp
  qed
qed

lemma for_articles_step:
  assumes f: "fetch_news env tp s = (Inr articles, s1)"
    and fa: "for_articles env tp articles (P, s1) = (r2, (P2, s2))"
    and np: "unpruned P s1 P2 s2"
  shows "dedup_step P s r2 P2 s2"
proof -
  from fetch_news_trace [OF f] obtain got where
    got: "published (trace s1) = published (trace s)"
      "fetched (trace s1) = fetched (trace s) @ got"
      "set got = {u. u \<noteq> [] \<and> u \<in> (\<lambda>a. dict_get (a_url a) []) ` set articles}"
    by auto
  from for_articles_dedup [OF fa np] obtain new where
    new: "map url (published (trace s2)) = map url (published (trace s1)) @ new"
      "fetched (trace s2) = fetched (trace s1)"
      "distinct new" "fset P \<inter> set new = {}"
      "set new \<subseteq> {u. u \<noteq> [] \<and> u \<in> (\<lambda>a. dict_get (a_url a) []) ` set articles}"
      "fset P \<subseteq> fset P2"
      "fset P2 \<subseteq> fset P \<union> set new"
      "r2 = Inr () \<longrightarrow> fset P2 = fset P \<union> set new \<and>
         (\<forall>a\<in>set articles. dict_get (a_url a) [] \<noteq> [] \<longrightarrow> dict_get (a_url a) [] \<in> fset P2)"
    by blast
  show ?thesis
    unfolding dedup_step_def
    using new got by auto
qed

lemma for_topics_dedup:
  assumes "for_topics env topics (P, s) = (r, (P', s'))"
    and "unpruned P s P' s'"
  shows "dedup_step P s r P' s'"
  using assms
proof (induction topics arbitrary: P s)
  case Nil
  then show ?case by (simp add: dedup_step_quiet)
next
  case (Cons tp topics)
  from Cons.prems(1) show ?case
  proof (cases rule: for_topics_turn)
    case (1 e s1)
    from fetch_news_trace [OF 1(1)]
    have "published (trace s1) = published (trace s)" "fetched (trace s1) = fetched (trace s)"
      by simp_all
    with 1 show ?thesis unfolding dedup_step_def by (intro exI [of _ "[]"]) simp
  next
    case (2 articles s1 e s2)
    from fetch_news_trace [OF 2(1)] have "published (trace s1) = published (trace s)" by simp
    with Cons.prems(2) 2 have "unpruned P s1 P' s2" by (simp add: unpruned_def)
    from for_articles_step [OF 2(1,2) this] 2 show ?thesis by simp
  next
    case (3 articles s1 P2 s2 e s3)
    from fetch_news_trace [OF 3(1)] have p1: "published (trace s1) = published (trace s)" by simp
    from quiet_time_sleep [OF quiet_refl, of s2 env 2] 3(3) have q3: "quiet s2 s3" by simp
    with Cons.prems(2) 3 p1 have "unpruned P s1 P2 s2"
      by (simp add: unpruned_def quiet_published)
    from for_articles_step [OF 3(1,2) this] have "dedup_step P s (Inr ()) P2 s2" .
    from dedup_step_then_quiet [OF this q3] 3 show ?thesis by simp
  next
    case (4 articles s1 P2 s2 s3)
    from fetch_news_trace [OF 4(1)] have p1: "published (trace s1) = published (trace s)" by simp
    from quiet_time_sleep [OF quiet_refl, of s2 env 2] 4(3) have q3: "quiet s2 s3" by simp
    then have p3: "published (trace s3) = published (trace s2)" by (rule quiet_published)
    from published_for_articles [OF 4(2)] published_for_topics [OF 4(4)]
      for_topics_grows [OF 4(4)] Cons.prems(2) p1 p3
    have "unpruned P s1 P2 s2" by (simp add: unpruned_def)
    from for_articles_step [OF 4(1,2) this] have "dedup_step P s (Inr ()) P2 s2" .
    from dedup_step_then_quiet [OF this q3] have step3: "dedup_step P s (Inr ()) P2 s3" .
    from dedup_step_card [OF step3] Cons.prems(2) have "unpruned P2 s3 P' s'"
      by (simp add: unpruned_def)
    from Cons.IH [OF 4(4) this] have "dedup_step P2 s3 r P' s'" .
    with step3 show ?thesis by (rule dedup_step_trans)
  qed
qed

text \<open>One cycle, in its parts: the loop over the topics and the sleep that ends it.\<close>

lemma news_cycle_parts:
  assumes "news_cycle env (P, s) = (r, (P', s'))"
  obtains r1 s1 where "for_topics env MARKET_TOPICS (P, s) = (r1, (P', s1))" "quiet s1 s'"
    "r = Inr () \<longrightarrow> r1 = Inr ()"
proof -
  obtain r1 P1 s1 where ft: "for_topics env MARKET_TOPICS (P, s) = (r1, (P1, s1))"
    by (cases "for_topics env MARKET_TOPICS (P, s)") auto
  define s2 where "s2 = emit (LogInfo ''Completed news check cycle. Sleeping for {CHECK_INTERVAL} seconds...'') s1"
  obtain r3 s3 where sl: "time_sleep env (CHECK_INTERVAL env) s2 = (r3, s3)"
    by (cases "time_sleep env (CHECK_INTERVAL env) s2")
  have "quiet s1 s2" unfolding s2_def by (simp add: quiet_emit)
  from quiet_time_sleep [OF this, of env "CHECK_INTERVAL env"] sl
  have q: "quiet s1 s3" by simp
  show ?thesis
  proof (cases r1)
    case (Inl e)
    with ft assms have "r = Inl e" "P' = P1" "s' = s1" by (simp_all add: news_cycle_def)
    with ft that [of r1 s1] show ?thesis by simp
  next
    case (Inr x)
    with ft sl assms have "r = r3" "P' = P1" "s' = s3"
      by (simp_all add: news_cycle_def s2_def)
    with ft q Inr that [of r1 s1] show ?thesis by simp
  qed
qed

lemma news_cycle_dedup:
  assumes "news_cycle env (P, s) = (r, (P', s'))"
    and "unpruned P s P' s'"
  shows "dedup_step P s r P' s'"
proof -
  from assms(1) obtain r1 s1 where
    ft: "for_topics env MARKET_TOPICS (P, s) = (r1, (P', s1))" and q: "quiet s1 s'"
    and r: "r = Inr () \<longrightarrow> r1 = Inr ()"
    by (rule news_cycle_parts)
  from assms(2) quiet_published [OF q] have "unpruned P s P' s1" by (simp add: unpruned_def)
  from for_topics_dedup [OF ft this] have d: "dedup_step P s r1 P' s1" .
  from d quiet_published [OF q] quiet_fetched [OF q] r show ?thesis
    unfolding dedup_step_def by auto
qed

text \<open>
  A cache with room for every record that a cycle hands to \<^verbatim>\<open>basic_publish\<close> is not
  pruned in the cycle.
\<close>

lemma for_articles_room:
  assumes "for_articles env tp articles (P, s) = (r, (P', s'))"
    and "fcard P + length (published (trace s')) \<le> 10000 + length (published (trace s))"
  shows "unpruned P s P' s' \<and>
         (r = Inr () \<longrightarrow>
            fcard P + length (published (trace s')) = fcard P' + length (published (trace s)))"
  using assms
proof (induction articles arbitrary: P s)
  case Nil
  then show ?case by (simp add: unpruned_def)
next
  case (Cons a articles)
  define u where "u = dict_get (a_url a) []"
  show ?case
  proof (cases "u \<noteq> [] \<and> u |\<notin>| P")
    case False
    with Cons.prems(1) have "for_articles env tp articles (P, s) = (r, (P', s'))"
      by (simp add: u_def for_articles_skip del: for_articles.simps)
    from Cons.IH [OF this Cons.prems(2)] show ?thesis .
  next
    case True
    obtain news s1 where p: "process_article env a tp s = (news, s1)"
      by (cases "process_article env a tp s")
    obtain rp s2 where pb: "publish_news env news s1 = (rp, s2)"
      by (cases "publish_news env news s1")
    from quiet_process_article [OF quiet_refl, of s env a tp] p
    have "published (trace s1) = published (trace s)" by (auto dest: quiet_published)
    with published_publish_news(1) [of env news s1] pb
    have q2: "published (trace s2) = published (trace s) @ [news]" by simp
    show ?thesis
    proof (cases rp)
      case (Inl e)
      with True p pb Cons.prems(1) have "r = Inl e" "P' = P" "s' = s2"
        by (simp_all add: u_def for_articles_publish del: for_articles.simps)
      with q2 show ?thesis by (simp add: unpruned_def)
    next
      case (Inr x)
      define P1 where "P1 = mark (list_of_set env (now s2)) P u"
      from True p pb Inr Cons.prems(1)
      have rec: "for_articles env tp articles (P1, s2) = (r, (P', s'))"
        by (simp add: u_def P1_def for_articles_publish del: for_articles.simps)
      from published_for_articles [OF rec] q2
      have len: "Suc (length (published (trace s))) \<le> length (published (trace s'))" by simp
      from True have c: "fcard (finsert u P) = Suc (fcard P)" by (simp add: fcard_finsert_disjoint)
      with len Cons.prems(2) have "fcard (finsert u P) \<le> 10000" by simp
      then have P1: "P1 = finsert u P" unfolding P1_def by (rule mark_no_prune)
      from c P1 q2 Cons.prems(2)
      have "fcard P1 + length (published (trace s')) \<le> 10000 + length (published (trace s2))"
        by simp
      from Cons.IH [OF rec this] c P1 q2 show ?thesis by (simp add: unpruned_def)
    qed
  qed
qed

lemma for_topics_room:
  assumes "for_topics env topics (P, s) = (r, (P', s'))"
    and "fcard P + length (published (trace s')) \<le> 10000 + length (published (trace s))"
  shows "unpruned P s P' s' \<and>
         (r = Inr () \<longrightarrow>
            fcard P + length (published (trace s')) = fcard P' + length (published (trace s)))"
  using assms
proof (induction topics arbitrary: P s)
  case Nil
  then show ?case by (simp add: unpruned_def)
next
  case (Cons tp topics)
  from Cons.prems(1) show ?case
  proof (cases rule: for_topics_turn)
    case (1 e s1)
    with fetch_news_trace [OF 1(1)] show ?thesis by (simp add: unpruned_def)
  next
    case (2 articles s1 e s2)
    from fetch_news_trace [OF 2(1)] have p1: "published (trace s1) = published (trace s)" by simp
    with Cons.prems(2) 2 for_articles_room [OF 2(2)] show ?thesis by (simp add: unpruned_def)
  next
    case (3 articles s1 P2 s2 e s3)
    from fetch_news_trace [OF 3(1)] have p1: "published (trace s1) = published (trace s)" by simp
    from published_time_sleep [OF 3(3)] have "published (trace s3) = published (trace s2)" .
    with Cons.prems(2) 3 p1 for_articles_room [OF 3(2)] show ?thesis by (simp add: unpruned_def)
  next
    case (4 articles s1 P2 s2 s3)
    from fetch_news_trace [OF 4(1)] have p1: "published (trace s1) = published (trace s)" by simp
    from published_time_sleep [OF 4(3)] have p3: "published (trace s3) = published (trace s2)" .
    from published_for_topics [OF 4(4)] Cons.prems(2) p1 p3
    have "fcard P + length (published (trace s2)) \<le> 10000 + length (published (trace s1))"
      by simp
    from for_articles_room [OF 4(2) this] p1
    have e1: "fcard P + length (published (trace s2)) = fcard P2 + length (published (trace s))"
      by simp
    with Cons.prems(2) p3
    have "fcard P2 + length (published (trace s')) \<le> 10000 + length (published (trace s3))"
      by simp
    from Cons.IH [OF 4(4) this] e1 p3 show ?thesis by (auto simp: unpruned_def)
  qed
qed

lemma news_cycle_room:
  assumes "news_cycle env (P, s) = (r, (P', s'))"
    and "fcard P + length (published (trace s')) \<le> 10000 + length (published (trace s))"
  shows "unpruned P s P' s'"
proof -
  from assms(1) obtain r1 s1 where
    ft: "for_topics env MARKET_TOPICS (P, s) = (r1, (P', s1))" and q: "quiet s1 s'"
    by (rule news_cycle_parts)
  from for_topics_room [OF ft] assms(2) quiet_published [OF q] show ?thesis
    by (simp add: unpruned_def)
qed

lemma count_list_distinct: "distinct xs \<Longrightarrow> x \<in> set xs \<Longrightarrow> count_list xs x = 1"
  by (induction xs) auto

text \<open>The turns of the loop of \<^verbatim>\<open>run\<close>: one, and two.\<close>

lemma news_loop_one:
  assumes "news_loop env (Suc 0) (P, s) = (out, (P', s'))"
  obtains r sc where "news_cycle env (P, s) = (r, (P', sc))" "quiet sc s'"
proof -
  obtain r Pc sc where c: "news_cycle env (P, s) = (r, (Pc, sc))"
    by (cases "news_cycle env (P, s)") auto
  let ?s1 = "emit (LogError ''Error in main loop: {e}'') sc"
  obtain r2 s2 where sl: "time_sleep env 30 ?s1 = (r2, s2)" by (cases "time_sleep env 30 ?s1")
  have q1: "quiet sc ?s1" by (simp add: quiet_emit)
  from quiet_time_sleep [OF q1, of env 30] sl have q2: "quiet sc s2" by simp
  have q3: "quiet sc (emit (LogInfo ''Shutting down GNews Service...'') sc)"
    by (simp add: quiet_emit)
  from assms c sl have "P' = Pc \<and> (s' = sc \<or> s' = s2 \<or>
      s' = emit (LogInfo ''Shutting down GNews Service...'') sc)"
    by (auto split: sum.splits if_splits)
  with q2 q3 c that [of r sc] show ?thesis by auto
qed

lemma news_loop_two:
  assumes c: "news_cycle env (P0, s0) = (r1, (P1, s1))"
    and l: "news_loop env (Suc (Suc 0)) (P0, s0) = (out, (P2, s2))"
  shows "(P2 = P1 \<and> quiet s1 s2) \<or>
         (\<exists>s1' r2 sc. quiet s1 s1' \<and> news_cycle env (P1, s1') = (r2, (P2, sc)) \<and> quiet sc s2)"
proof -
  let ?s1 = "emit (LogError ''Error in main loop: {e}'') s1"
  obtain r3 s3 where sl: "time_sleep env 30 ?s1 = (r3, s3)" by (cases "time_sleep env 30 ?s1")
  have q1: "quiet s1 ?s1" by (simp add: quiet_emit)
  from quiet_time_sleep [OF q1, of env 30] sl have q3: "quiet s1 s3" by simp
  have q4: "quiet s1 (emit (LogInfo ''Shutting down GNews Service...'') s1)"
    by (simp add: quiet_emit)
  from c l sl consider
      (stop) "P2 = P1" "s2 = s3 \<or> s2 = emit (LogInfo ''Shutting down GNews Service...'') s1"
    | (next1) "news_loop env (Suc 0) (P1, s1) = (out, (P2, s2))"
    | (next3) "news_loop env (Suc 0) (P1, s3) = (out, (P2, s2))"
    by (auto split: sum.splits if_splits)
  then show ?thesis
  proof cases
    case stop
    with q3 q4 show ?thesis by auto
  next
    case next1
    then obtain r sc where "news_cycle env (P1, s1) = (r, (P2, sc))" "quiet sc s2"
      by (rule news_loop_one)
    then show ?thesis using quiet_refl [of s1] by blast
  next
    case next3
    then obtain r sc where "news_cycle env (P1, s3) = (r, (P2, sc))" "quiet sc s2"
      by (rule news_loop_one)
    with q3 show ?thesis by blast
  qed
qed

lemma news_published_once:
  assumes c1: "news_cycle env (P0, s0) = (r1, (P1, s1))"
    and l: "news_loop env (Suc (Suc 0)) (P0, s0) = (out, (P2, s2))"
    and fresh: "u |\<notin>| P0" and marked: "u |\<in>| P1"
    and np1: "unpruned P0 s0 P1 s1" and np2: "unpruned P1 s1 P2 s2"
  shows "count_list (map url (published (trace s2))) u =
           count_list (map url (published (trace s0))) u + 1 \<and>
         u \<in> set (drop (length (fetched (trace s0))) (fetched (trace s1)))"
proof -
  from news_cycle_dedup [OF c1 np1] obtain new1 got1 where
    a: "map url (published (trace s1)) = map url (published (trace s0)) @ new1"
      "fetched (trace s1) = fetched (trace s0) @ got1"
      "distinct new1" "set new1 \<subseteq> set got1" "fset P1 \<subseteq> fset P0 \<union> set new1"
    unfolding dedup_step_def by auto
  from fresh marked a(5) have in1: "u \<in> set new1" by auto
  with a(3) have one: "count_list new1 u = 1" by (simp add: count_list_distinct)
  from in1 a(2,4) have got: "u \<in> set (drop (length (fetched (trace s0))) (fetched (trace s1)))"
    by auto
  from news_loop_two [OF c1 l] have "published (trace s2) = published (trace s1) \<or>
      (\<exists>new2. map url (published (trace s2)) = map url (published (trace s1)) @ new2 \<and>
         u \<notin> set new2)"
  proof
    assume "P2 = P1 \<and> quiet s1 s2"
    then show ?thesis by (simp add: quiet_published)
  next
    assume "\<exists>s1' r2 sc. quiet s1 s1' \<and> news_cycle env (P1, s1') = (r2, (P2, sc)) \<and> quiet sc s2"
    then obtain s1' r2 sc where q1: "quiet s1 s1'"
      and c2: "news_cycle env (P1, s1') = (r2, (P2, sc))" and q2: "quiet sc s2" by blast
    from np2 quiet_published [OF q1] quiet_published [OF q2] have "unpruned P1 s1' P2 sc"
      by (simp add: unpruned_def)
    from news_cycle_dedup [OF c2 this] obtain new2 where
      b: "map url (published (trace sc)) = map url (published (trace s1')) @ new2"
        "fset P1 \<inter> set new2 = {}"
      unfolding dedup_step_def by auto
    from marked b(2) have "u \<notin> set new2" by auto
    with b(1) quiet_published [OF q1] quiet_published [OF q2] show ?thesis by auto
  qed
  then have "count_list (map url (published (trace s2))) u =
      count_list (map url (published (trace s1))) u"
    by auto
  with a(1) one got show ?thesis by simp
qed

subsection \<open>The scraper publishes in every cycle\<close>

lemma quiet_scrape_stock: "quiet s s0 \<Longrightarrow> quiet s (snd (scrape_stock env symb s0))"
  by (auto simp: scrape_stock_def scrape_body_def Let_def extract_indicator_def
      datetime_utcnow_def quiet_emit split: sum.splits option.splits)

lemma scrape_stock_ok:
  assumes "scraping_succeeds env"
  shows "\<exists>d. fst (scrape_stock env symb s) = Inr (Some d) \<and> symbol d = symb"
proof -
  from assms obtain resp where
    "session_get env (Suc (now s)) = Inr resp" "raise_for_status resp = None"
    unfolding scraping_succeeds_def by blast
  then show ?thesis
    by (simp add: scrape_stock_def scrape_body_def Let_def extract_indicator_def
        datetime_utcnow_def)
qed

lemma publish_ok:
  "basic_publish_raises env (now s) = None \<Longrightarrow>
   publish env exchange queue info err d s =
     (Inr (), emit (LogInfo info)
        (emit (BasicPublish exchange [] (json_dumps d) 2 ''application/json'') s))"
  by (simp add: publish_def call_def)

lemma for_symbols_ok:
  assumes "scraping_succeeds env"
  shows "fst (for_symbols env syms s) = Inr () \<and>
         map symbol (published (trace (snd (for_symbols env syms s)))) =
           map symbol (published (trace s)) @ syms"
proof (induction syms arbitrary: s)
  case Nil
  then show ?case by simp
next
  case (Cons symb syms)
  obtain r s1 where sc: "scrape_stock env symb s = (r, s1)" by (cases "scrape_stock env symb s")
  with scrape_stock_ok [OF assms, of symb s] obtain d where
    d: "r = Inr (Some d)" "symbol d = symb" by auto
  from quiet_scrape_stock [OF quiet_refl, of s env symb] sc
  have p1: "published (trace s1) = published (trace s)" by (auto dest: quiet_published)
  define s2 where "s2 = emit (LogInfo ''Published fundamental data for {symbol}'')
        (emit (BasicPublish ''fundamental_data'' [] (json_dumps d) 2 ''application/json'') s1)"
  from assms have "basic_publish_raises env (now s1) = None"
    unfolding scraping_succeeds_def by blast
  then have pb: "publish_data env d s1 = (Inr (), s2)"
    unfolding publish_data_def s2_def by (rule publish_ok)
  from assms have sl: "time_sleep env 3 s2 = (Inr (), emit (Sleep 3) s2)"
    unfolding scraping_succeeds_def by (simp add: time_sleep_def)
  have step: "for_symbols env (symb # syms) s = for_symbols env syms (emit (Sleep 3) s2)"
    using sc d pb sl by simp
  have "map symbol (published (trace (emit (Sleep 3) s2))) =
        map symbol (published (trace s)) @ [symb]"
    using p1 d(2) by (simp add: s2_def)
  with Cons.IH [of "emit (Sleep 3) s2"] show ?case unfolding step by simp
qed

lemma scraper_cycle_ok:
  assumes "scraping_succeeds env"
  shows "fst (scraper_cycle env s) \<noteq> Inl KeyboardInterrupt \<and>
         map symbol (published (trace (snd (scraper_cycle env s)))) =
           map symbol (published (trace s)) @ BRAZILIAN_STOCKS"
proof -
  obtain s1 where f: "for_symbols env BRAZILIAN_STOCKS s = (Inr (), s1)"
    using for_symbols_ok [OF assms, of BRAZILIAN_STOCKS s]
    by (cases "for_symbols env BRAZILIAN_STOCKS s") auto
  with for_symbols_ok [OF assms, of BRAZILIAN_STOCKS s]
  have p: "map symbol (published (trace s1)) = map symbol (published (trace s)) @ BRAZILIAN_STOCKS"
    by simp
  from assms have "\<And>t. \<not> sleep_interrupted env t"
    unfolding scraping_succeeds_def by blast
  with f p show ?thesis by (simp add: scraper_cycle_def time_sleep_def)
qed

lemma scraper_loop_ok:
  assumes "scraping_succeeds env"
  shows "fst (scraper_loop env n s) = Running \<and>
         map symbol (published (trace (snd (scraper_loop env n s)))) =
           map symbol (published (trace s)) @ concat (replicate n BRAZILIAN_STOCKS)"
proof (induction n arbitrary: s)
  case 0
  then show ?case by simp
next
  case (Suc n)
  obtain r s1 where c: "scraper_cycle env s = (r, s1)" by (cases "scraper_cycle env s")
  with scraper_cycle_ok [OF assms, of s]
  have r: "r \<noteq> Inl KeyboardInterrupt"
    and p: "map symbol (published (trace s1)) = map symbol (published (trace s)) @ BRAZILIAN_STOCKS"
    by simp_all
  let ?s2 = "emit (LogError ''Error in main loop: {e}'') s1"
  from assms have sl: "time_sleep env 30 ?s2 = (Inr (), emit (Sleep 30) ?s2)"
    unfolding scraping_succeeds_def by (simp add: time_sleep_def)
  show ?case
  proof (cases r)
    case (Inr x)
    with c p Suc.IH [of s1] show ?thesis by simp
  next
    case (Inl e)
    with r c sl have "scraper_loop env (Suc n) s = scraper_loop env n (emit (Sleep 30) ?s2)"
      by simp
    with p Suc.IH [of "emit (Sleep 30) ?s2"] show ?thesis by simp
  qed
qed

section \<open>The claims\<close>

subsection \<open>C3: the retry budget of connect_rabbitmq\<close>

lemma GNewsService_main_refused:
  assumes "broker_refuses env" and "sleeps_through env"
  shows "\<exists>e. BlockingConnection_raises env 12 = Some e \<and> is_Exception e \<and>
           GNewsService_main env fuel =
             (Raised e, \<lparr>connection = None, channel = None, trace = five_failed_attempts\<rparr>)"
proof -
  from connect_rabbitmq_exhausted [OF assms,
      of "\<lparr>connection = None, channel = None, trace = []\<rparr> :: news_data service"
      "''market_news''" "''news_queue''"]
  show ?thesis
    by (auto simp: GNewsService_main_def GNewsService_init_def GNewsService_connect_rabbitmq_def
        now_def)
qed

lemma StatusInvestScraper_main_refused:
  assumes "broker_refuses env" and "sleeps_through env"
  shows "\<exists>e. BlockingConnection_raises env 12 = Some e \<and> is_Exception e \<and>
           StatusInvestScraper_main env fuel =
             (Raised e, \<lparr>connection = None, channel = None, trace = five_failed_attempts,
                          session_open = True\<rparr>)"
proof -
  from connect_rabbitmq_exhausted [OF assms,
      of "\<lparr>connection = None, channel = None, trace = [], session_open = True\<rparr>
          :: stock_data scraper"
      "''fundamental_data''" "''fundamentals_queue''"]
  show ?thesis
    by (auto simp: StatusInvestScraper_main_def StatusInvestScraper_init_def
        StatusInvestScraper_connect_rabbitmq_def now_def)
qed

lemma broker_down_refuses:
  "broker_refuses broker_down" "sleeps_through broker_down"
  "broker_refuses (with_news broker_down g)" "sleeps_through (with_news broker_down g)"
  "broker_refuses (with_session broker_down h)" "sleeps_through (with_session broker_down h)"
  by (simp_all add: broker_refuses_def sleeps_through_def broker_down_def calm_def
      with_news_def with_session_def)

text \<open>
  C3, as amended. When the broker refuses every connection and no sleep is cut short,
  \<^verbatim>\<open>connect_rabbitmq\<close> makes exactly five attempts, sleeps five seconds after each of the
  first four, and raises the error of the fifth attempt: the trace grows by
  \<open>five_failed_attempts\<close> and nothing else, so there is no sixth attempt. At startup the
  error leaves the constructor, \<^verbatim>\<open>run\<close> is never called (the trace of the whole process is
  that of the five attempts) and the process ends with the exception. This holds for both
  services.
\<close>

theorem connect_rabbitmq_five_attempts:
  "(broker_refuses env \<and> sleeps_through env \<longrightarrow>
      (\<exists>e. BlockingConnection_raises env (now s + 12) = Some e \<and> is_Exception e \<and>
           connect_rabbitmq env exchange queue s =
             (Inl e, s\<lparr>trace := trace s @ five_failed_attempts\<rparr>))) \<and>
   (broker_refuses nenv \<and> sleeps_through nenv \<longrightarrow>
      (\<exists>e. is_Exception e \<and>
           GNewsService_main nenv fuel =
             (Raised e, \<lparr>connection = None, channel = None, trace = five_failed_attempts\<rparr>))) \<and>
   (broker_refuses senv \<and> sleeps_through senv \<longrightarrow>
      (\<exists>e. is_Exception e \<and>
           StatusInvestScraper_main senv fuel =
             (Raised e, \<lparr>connection = None, channel = None, trace = five_failed_attempts,
                          session_open = True\<rparr>)))"
  using connect_rabbitmq_exhausted [of env s exchange queue]
    GNewsService_main_refused [of nenv fuel] StatusInvestScraper_main_refused [of senv fuel]
  by blast

text \<open>The theorem at a broker that is down, for each of the two services.\<close>

theorem connect_rabbitmq_five_attempts_witness:
  "broker_refuses broker_down \<and> sleeps_through broker_down \<and>
   connect_rabbitmq broker_down ''market_news'' ''news_queue''
       (\<lparr>connection = None, channel = None, trace = []\<rparr> :: news_data service) =
     (Inl (Exception ''Connection refused''),
      \<lparr>connection = None, channel = None, trace = five_failed_attempts\<rparr>) \<and>
   broker_refuses (with_news broker_down (\<lambda>t. Inr [])) \<and>
   sleeps_through (with_news broker_down (\<lambda>t. Inr [])) \<and>
   (\<exists>e. is_Exception e \<and>
        GNewsService_main (with_news broker_down (\<lambda>t. Inr [])) 3 =
          (Raised e, \<lparr>connection = None, channel = None, trace = five_failed_attempts\<rparr>)) \<and>
   broker_refuses (with_session broker_down pages) \<and>
   sleeps_through (with_session broker_down pages) \<and>
   (\<exists>e. is_Exception e \<and>
        StatusInvestScraper_main (with_session broker_down pages) 3 =
          (Raised e, \<lparr>connection = None, channel = None, trace = five_failed_attempts,
                       session_open = True\<rparr>))"
proof -
  have "BlockingConnection_raises broker_down t = Some (Exception ''Connection refused'')" for t
    by (simp add: broker_down_def calm_def)
  with connect_rabbitmq_five_attempts [of broker_down
      "\<lparr>connection = None, channel = None, trace = []\<rparr> :: news_data service"
      "''market_news''" "''news_queue''"
      "with_news broker_down (\<lambda>t. Inr [])" 3 "with_session broker_down pages"]
  show ?thesis
    by (simp add: broker_down_refuses)
qed

text \<open>
  C3 as stated speaks of five retries and of an error on the sixth attempt. With the broker
  down, the constructor of the news service makes five attempts, not six, and sleeps four
  times, not five.
\<close>

theorem sixth_attempt_counterexample:
  "fst (GNewsService_init broker_down) = Inl (Exception ''Connection refused'') \<and>
   attempts (trace (snd (GNewsService_init broker_down))) = 5 \<and>
   attempts (trace (snd (GNewsService_init broker_down))) \<noteq> 6 \<and>
   delays (trace (snd (GNewsService_init broker_down))) = 4"
  by (simp add: GNewsService_init_def GNewsService_connect_rabbitmq_def connect_rabbitmq_def
      upt_rec try_connect_def call_def time_sleep_def broker_down_def calm_def
      max_retries_def retry_delay_def attempts_def delays_def)

subsection \<open>C8: the topology declared and the properties of a message\<close>

lemma publish_trace:
  "\<exists>rest. trace (snd (publish env exchange queue info err d s)) =
            trace s @ BasicPublish exchange [] (json_dumps d) 2 ''application/json'' # rest \<and>
          published rest = []"
  using publish_first_event [of exchange d s env queue info err]
  by (auto simp: quiet_def)

text \<open>
  C8. A call of \<^verbatim>\<open>connect_rabbitmq\<close> that returns has, as its last events, opened a
  connection and a channel, declared the durable fanout exchange of the service
  (\<^verbatim>\<open>market_news\<close>, \<^verbatim>\<open>fundamental_data\<close>), declared its durable queue (\<^verbatim>\<open>news_queue\<close>,
  \<^verbatim>\<open>fundamentals_queue\<close>) and bound the queue to the exchange. The first thing a call of
  \<^verbatim>\<open>publish_news\<close> or \<^verbatim>\<open>publish_data\<close> does is one \<^verbatim>\<open>basic_publish\<close> to that exchange
  with the empty routing key, the body \<^verbatim>\<open>json.dumps\<close> of the record, delivery mode 2 and
  content type \<^verbatim>\<open>application/json\<close>, and the call publishes nothing else.
\<close>

theorem topology_and_message_properties:
  "(GNewsService_connect_rabbitmq env s = (Inr u, s') \<longrightarrow>
      (\<exists>mid. trace s' = trace s @ mid @
         [BlockingConnection, Channel, ExchangeDeclare ''market_news'' ''fanout'' True,
          QueueDeclare ''news_queue'' True, QueueBind ''market_news'' ''news_queue'',
          LogInfo ''Successfully connected to RabbitMQ''])) \<and>
   (StatusInvestScraper_connect_rabbitmq env2 s2 = (Inr u2, s2') \<longrightarrow>
      (\<exists>mid. trace s2' = trace s2 @ mid @
         [BlockingConnection, Channel, ExchangeDeclare ''fundamental_data'' ''fanout'' True,
          QueueDeclare ''fundamentals_queue'' True,
          QueueBind ''fundamental_data'' ''fundamentals_queue'',
          LogInfo ''Successfully connected to RabbitMQ''])) \<and>
   (\<exists>rest. trace (snd (publish_news env3 d s3)) =
        trace s3 @ BasicPublish ''market_news'' [] (json_dumps d) 2 ''application/json'' # rest \<and>
        published rest = []) \<and>
   (\<exists>rest. trace (snd (publish_data env4 d4 s4)) =
        trace s4 @ BasicPublish ''fundamental_data'' [] (json_dumps d4) 2 ''application/json'' # rest \<and>
        published rest = [])"
  using connect_rabbitmq_ok [of env "''market_news''" "''news_queue''" s u s']
    connect_rabbitmq_ok [of env2 "''fundamental_data''" "''fundamentals_queue''" s2 u2 s2']
    publish_trace [of env3 "''market_news''" "''news_queue''" _ _ d s3]
    publish_trace [of env4 "''fundamental_data''" "''fundamentals_queue''" _ _ d4 s4]
  unfolding GNewsService_connect_rabbitmq_def StatusInvestScraper_connect_rabbitmq_def
    publish_news_def publish_data_def declared_def
  by blast

lemma calm_connect:
  "connect_rabbitmq calm exchange queue s =
     (Inr (), s\<lparr>connection := Some (now s), channel := Some (Suc (now s)),
                trace := trace s @ declared exchange queue\<rparr>)"
  by (simp add: connect_rabbitmq_def upt_rec max_retries_def try_connect_def call_def andthen_def
      calm_def declared_def emit_def now_def)

text \<open>The theorem at the first connection of each service, with nothing failing.\<close>

theorem topology_and_message_properties_witness:
  "GNewsService_connect_rabbitmq calm
       (\<lparr>connection = None, channel = None, trace = []\<rparr> :: news_data service) =
     (Inr (), connected) \<and>
   (\<exists>mid. trace connected = trace (\<lparr>connection = None, channel = None, trace = []\<rparr> :: news_data service) @ mid @
         [BlockingConnection, Channel, ExchangeDeclare ''market_news'' ''fanout'' True,
          QueueDeclare ''news_queue'' True, QueueBind ''market_news'' ''news_queue'',
          LogInfo ''Successfully connected to RabbitMQ'']) \<and>
   StatusInvestScraper_connect_rabbitmq calm
       (\<lparr>connection = None, channel = None, trace = [], session_open = True\<rparr> :: stock_data scraper) =
     (Inr (), \<lparr>connection = Some 0, channel = Some 1,
               trace = declared ''fundamental_data'' ''fundamentals_queue'', session_open = True\<rparr>) \<and>
   (\<exists>mid. (declared ''fundamental_data'' ''fundamentals_queue'' :: stock_data event list) = mid @
         [BlockingConnection, Channel, ExchangeDeclare ''fundamental_data'' ''fanout'' True,
          QueueDeclare ''fundamentals_queue'' True,
          QueueBind ''fundamental_data'' ''fundamentals_queue'',
          LogInfo ''Successfully connected to RabbitMQ''])"
proof -
  have a: "GNewsService_connect_rabbitmq calm
       (\<lparr>connection = None, channel = None, trace = []\<rparr> :: news_data service) =
     (Inr (), connected)"
    by (simp add: GNewsService_connect_rabbitmq_def calm_connect connected_def now_def)
  have b: "StatusInvestScraper_connect_rabbitmq calm
       (\<lparr>connection = None, channel = None, trace = [], session_open = True\<rparr> :: stock_data scraper) =
     (Inr (), \<lparr>connection = Some 0, channel = Some 1,
               trace = declared ''fundamental_data'' ''fundamentals_queue'', session_open = True\<rparr>)"
    by (simp add: StatusInvestScraper_connect_rabbitmq_def calm_connect now_def)
  note t = topology_and_message_properties [of calm
      "\<lparr>connection = None, channel = None, trace = []\<rparr> :: news_data service" "()" connected
      calm "\<lparr>connection = None, channel = None, trace = [], session_open = True\<rparr> :: stock_data scraper"
      "()" "\<lparr>connection = Some 0, channel = Some 1,
               trace = declared ''fundamental_data'' ''fundamentals_queue'', session_open = True\<rparr>"]
  from t [THEN conjunct1] a
  have c: "\<exists>mid. trace connected = trace (\<lparr>connection = None, channel = None, trace = []\<rparr> :: news_data service) @ mid @
         [BlockingConnection, Channel, ExchangeDeclare ''market_news'' ''fanout'' True,
          QueueDeclare ''news_queue'' True, QueueBind ''market_news'' ''news_queue'',
          LogInfo ''Successfully connected to RabbitMQ'']"
    by (rule mp)
  from t [THEN conjunct2, THEN conjunct1] b
  have "\<exists>mid. trace \<lparr>connection = Some 0, channel = Some 1,
               trace = declared ''fundamental_data'' ''fundamentals_queue'', session_open = True\<rparr> =
           trace (\<lparr>connection = None, channel = None, trace = [], session_open = True\<rparr> :: stock_data scraper) @ mid @
         [BlockingConnection, Channel, ExchangeDeclare ''fundamental_data'' ''fanout'' True,
          QueueDeclare ''fundamentals_queue'' True,
          QueueBind ''fundamental_data'' ''fundamentals_queue'',
          LogInfo ''Successfully connected to RabbitMQ'']"
    by (rule mp)
  then have "\<exists>mid. (declared ''fundamental_data'' ''fundamentals_queue'' :: stock_data event list) = mid @
         [BlockingConnection, Channel, ExchangeDeclare ''fundamental_data'' ''fanout'' True,
          QueueDeclare ''fundamentals_queue'' True,
          QueueBind ''fundamental_data'' ''fundamentals_queue'',
          LogInfo ''Successfully connected to RabbitMQ'']"
    by simp
  with a b c show ?thesis by simp
qed

subsection \<open>C2: the capacity of the cache\<close>

lemma for_articles_bounded:
  assumes "\<forall>t. enumerates (list_of_set env t)"
  shows "fcard P \<le> 10000 \<Longrightarrow> fcard (fst (snd (for_articles env tp articles (P, s)))) \<le> 10000"
proof (induction articles arbitrary: P s)
  case Nil
  then show ?case by simp
next
  case (Cons a articles)
  show ?case
  proof (cases "dict_get (a_url a) [] = [] \<or> dict_get (a_url a) [] |\<in>| P")
    case True
    then show ?thesis using Cons by (simp add: for_articles_skip del: for_articles.simps)
  next
    case False
    obtain news s1 where p: "process_article env a tp s = (news, s1)"
      by (cases "process_article env a tp s")
    obtain rp s2 where pb: "publish_news env news s1 = (rp, s2)"
      by (cases "publish_news env news s1")
    from assms have "fcard (mark (list_of_set env (now s2)) P (dict_get (a_url a) [])) \<le> 10000"
      by (simp add: mark_bound)
    from Cons.IH [OF this] Cons.prems False p pb show ?thesis
      by (cases rp) (simp_all add: for_articles_publish del: for_articles.simps)
  qed
qed

lemma for_topics_bounded:
  assumes "\<forall>t. enumerates (list_of_set env t)"
  shows "fcard P \<le> 10000 \<Longrightarrow> fcard (fst (snd (for_topics env topics (P, s)))) \<le> 10000"
proof (induction topics arbitrary: P s)
  case Nil
  then show ?case by simp
next
  case (Cons tp topics)
  obtain rf s1 where f: "fetch_news env tp s = (rf, s1)" by (cases "fetch_news env tp s")
  show ?case
  proof (cases rf)
    case (Inl e)
    with f Cons.prems show ?thesis by simp
  next
    case (Inr articles)
    obtain r2 P2 s2 where fa: "for_articles env tp articles (P, s1) = (r2, (P2, s2))"
      by (cases "for_articles env tp articles (P, s1)") auto
    with for_articles_bounded [OF assms Cons.prems, of tp articles s1]
    have P2: "fcard P2 \<le> 10000" by simp
    obtain r3 s3 where sl: "time_sleep env 2 s2 = (r3, s3)" by (cases "time_sleep env 2 s2")
    from f Inr fa sl P2 Cons.IH [OF P2, of s3] show ?thesis
      by (cases r2; cases r3) simp_all
  qed
qed

lemma news_cycle_bounded:
  assumes "\<forall>t. enumerates (list_of_set env t)" and "fcard P \<le> 10000"
  shows "fcard (fst (snd (news_cycle env (P, s)))) \<le> 10000"
proof -
  obtain r1 P1 s1 where ft: "for_topics env MARKET_TOPICS (P, s) = (r1, (P1, s1))"
    by (cases "for_topics env MARKET_TOPICS (P, s)") auto
  with for_topics_bounded [OF assms, of MARKET_TOPICS s] have "fcard P1 \<le> 10000" by simp
  with ft show ?thesis
    by (cases r1) (simp_all add: news_cycle_def split: prod.splits)
qed

lemma news_loop_bounded:
  assumes "\<forall>t. enumerates (list_of_set env t)"
  shows "fcard P \<le> 10000 \<Longrightarrow> fcard (fst (snd (news_loop env n (P, s)))) \<le> 10000"
proof (induction n arbitrary: P s)
  case 0
  then show ?case by simp
next
  case (Suc n)
  obtain r P1 s1 where c: "news_cycle env (P, s) = (r, (P1, s1))"
    by (cases "news_cycle env (P, s)") auto
  with news_cycle_bounded [OF assms Suc.prems, of s] have P1: "fcard P1 \<le> 10000" by simp
  let ?s2 = "emit (LogError ''Error in main loop: {e}'') s1"
  obtain r3 s3 where sl: "time_sleep env 30 ?s2 = (r3, s3)" by (cases "time_sleep env 30 ?s2")
  from c sl P1 Suc.IH [OF P1] show ?case
    by (cases r; cases r3) simp_all
qed

lemma marks_bounded:
  assumes "\<forall>t. enumerates (list_of_set env t)"
  shows "fcard (fold (\<lambda>(t, u) P. mark (list_of_set env t) P u) ops {||}) \<le> 10000"
proof (cases ops rule: rev_cases)
  case Nil
  then show ?thesis by (simp add: fcard_fempty)
next
  case (snoc ops' x)
  with assms show ?thesis by (cases x) (simp add: mark_bound)
qed

text \<open>
  C2. \<^verbatim>\<open>list(processed_urls)\<close> lists every element of the set once, in some order. Then
  after the add and its capacity check the cache holds at most 10000 identities, whatever
  it held before; when the add takes it over 10000 it is cut to exactly 5000 identities,
  all of them from the cache as it was after the add; otherwise the add is all that
  happens. So every sequence of marks from the empty cache, and every run of the loop of
  the news service, leaves at most 10000 identities.
\<close>

theorem cache_capacity:
  assumes "\<forall>t. enumerates (list_of_set env t)"
  shows "fcard (mark (list_of_set env t) P u) \<le> 10000 \<and>
         (10000 < fcard (finsert u P) \<longrightarrow>
            fcard (mark (list_of_set env t) P u) = 5000 \<and>
            mark (list_of_set env t) P u |\<subseteq>| finsert u P) \<and>
         (fcard (finsert u P) \<le> 10000 \<longrightarrow> mark (list_of_set env t) P u = finsert u P) \<and>
         fcard (fold (\<lambda>(t, u) P. mark (list_of_set env t) P u) ops {||}) \<le> 10000 \<and>
         fcard (fst (snd (news_loop env n ({||}, s)))) \<le> 10000"
proof -
  from assms have e: "enumerates (list_of_set env t)" by simp
  show ?thesis
    using mark_bound [OF e, of P u] mark_prune [OF e, of u P] mark_no_prune [of u P]
      marks_bounded [OF assms, of ops] news_loop_bounded [OF assms, of "{||}" n s]
    by (simp add: fcard_fempty)
qed

lemma newsy_enumerates: "\<forall>t. enumerates (list_of_set (with_news e g) t)"
  by (simp add: with_news_def enumerates_sorted)

text \<open>
  The theorem at a cache of 10001 identities, where the add is followed by the cut, and at
  the empty cache, where it is not.
\<close>

theorem cache_capacity_witness:
  "(\<forall>t. enumerates (list_of_set newsy t)) \<and>
   10000 < fcard (finsert ''https://x/1'' (fset_of_list (many_urls 10001))) \<and>
   fcard (mark (list_of_set newsy 0) (fset_of_list (many_urls 10001)) ''https://x/1'') = 5000 \<and>
   mark (list_of_set newsy 0) (fset_of_list (many_urls 10001)) ''https://x/1''
     |\<subseteq>| finsert ''https://x/1'' (fset_of_list (many_urls 10001)) \<and>
   fcard (finsert ''https://x/1'' {||}) \<le> 10000 \<and>
   mark (list_of_set newsy 0) {||} ''https://x/1'' = {|''https://x/1''|} \<and>
   fcard (fst (snd (news_loop newsy 2 ({||}, connected)))) \<le> 10000"
proof -
  have h: "\<forall>t. enumerates (list_of_set newsy t)"
    unfolding newsy_def by (rule newsy_enumerates)
  have big: "10000 < fcard (finsert ''https://x/1'' (fset_of_list (many_urls 10001)))"
    by (rule many_exceeds)
  have small: "fcard (finsert ''https://x/1'' {||}) \<le> 10000"
    by (simp add: fcard_finsert_if fcard_fempty)
  from cache_capacity [OF h, of 0 "fset_of_list (many_urls 10001)" "''https://x/1''" "[]" 2 connected]
    cache_capacity [OF h, of 0 "{||}" "''https://x/1''" "[]" 2 connected] h big small
  show ?thesis by simp
qed

subsection \<open>C6: a record without identity\<close>

text \<open>
  C6. An article whose \<^verbatim>\<open>url\<close> is absent or the empty string changes nothing: the loop
  over the articles ends with the same result, the same cache and the same trace, hence the
  same calls of \<^verbatim>\<open>publish_news\<close>, as on the list without that article.
\<close>

theorem empty_identity_dropped:
  assumes "a_url a = None \<or> a_url a = Some []"
  shows "for_articles env tp (before @ a # after) st = for_articles env tp (before @ after) st"
proof -
  from assms have e: "dict_get (a_url a) [] = []" by (auto simp: dict_get_def)
  show ?thesis
  proof (induction before arbitrary: st)
    case Nil
    obtain P s where "st = (P, s)" by (cases st)
    with e show ?case by (simp add: for_articles_skip del: for_articles.simps)
  next
    case (Cons b before)
    obtain P s where st: "st = (P, s)" by (cases st)
    show ?case
      unfolding st using Cons.IH
      by (simp add: Let_def split: prod.splits sum.splits)
  qed
qed

text \<open>The theorem at an article with the empty string as \<^verbatim>\<open>url\<close> between two others.\<close>

theorem empty_identity_dropped_witness:
  "(a_url untitled = None \<or> a_url untitled = Some []) \<and>
   for_articles newsy ''bitcoin'' ([story] @ untitled # [story]) ({||}, connected) =
   for_articles newsy ''bitcoin'' ([story] @ [story]) ({||}, connected)"
  using empty_identity_dropped [of untitled newsy "''bitcoin''" "[story]" "[story]" "({||}, connected)"]
  by (simp add: untitled_def)

subsection \<open>C7: the fetchers do not throw\<close>

lemma fetch_news_raised:
  "get_news env (Suc (now s)) = Inl e \<Longrightarrow> is_Exception e \<Longrightarrow>
   fetch_news env tp s =
     (Inr [], s\<lparr>trace := trace s @
        [LogInfo ''Fetching news for topic: {topic}'', GetNews tp (Inl e),
         LogError ''Error fetching news for {topic}: {e}'']\<rparr>)"
  by (simp add: fetch_news_def Let_def emit_def now_def)

lemma fetch_news_returned:
  "get_news env (Suc (now s)) = Inr articles \<Longrightarrow>
   fetch_news env tp s =
     (Inr articles, s\<lparr>trace := trace s @
        [LogInfo ''Fetching news for topic: {topic}'', GetNews tp (Inr articles)]\<rparr>)"
  by (simp add: fetch_news_def Let_def emit_def now_def)

lemma fetch_news_no_Exception:
  "is_Exception e \<Longrightarrow> fst (fetch_news env tp s) \<noteq> Inl e"
  by (auto simp: fetch_news_def Let_def split: sum.splits)

lemma scrape_stock_no_Exception:
  "is_Exception e \<Longrightarrow> fst (scrape_stock env symb s) \<noteq> Inl e"
  by (auto simp: scrape_stock_def split: sum.splits prod.splits)

lemma scrape_stock_request_failed:
  "session_get env (Suc (now s)) = Inl e \<Longrightarrow> is_RequestException e \<Longrightarrow>
   scrape_stock env symb s =
     (Inr None, s\<lparr>trace := trace s @
        [LogInfo ''Scraping data for {symbol} from {url}'',
         SessionGet (BASE_URL @ ''/'' @ lower symb) 10 (Inl e),
         LogError ''Error scraping {symbol}: {e}'']\<rparr>)"
  by (simp add: scrape_stock_def scrape_body_def Let_def emit_def now_def)

lemma scrape_stock_unexpected:
  "session_get env (Suc (now s)) = Inl e \<Longrightarrow> is_Exception e \<Longrightarrow> \<not> is_RequestException e \<Longrightarrow>
   scrape_stock env symb s =
     (Inr None, s\<lparr>trace := trace s @
        [LogInfo ''Scraping data for {symbol} from {url}'',
         SessionGet (BASE_URL @ ''/'' @ lower symb) 10 (Inl e),
         LogError ''Unexpected error scraping {symbol}: {e}'']\<rparr>)"
  by (simp add: scrape_stock_def scrape_body_def Let_def emit_def now_def)

lemma scrape_stock_status:
  "session_get env (Suc (now s)) = Inr resp \<Longrightarrow> 400 \<le> status_code resp \<Longrightarrow>
   status_code resp < 600 \<Longrightarrow>
   scrape_stock env symb s =
     (Inr None, s\<lparr>trace := trace s @
        [LogInfo ''Scraping data for {symbol} from {url}'',
         SessionGet (BASE_URL @ ''/'' @ lower symb) 10 (Inr resp),
         LogError ''Error scraping {symbol}: {e}'']\<rparr>)"
  by (simp add: scrape_stock_def scrape_body_def Let_def raise_for_status_def emit_def now_def)

lemma scrape_stock_returned:
  "session_get env (Suc (now s)) = Inr resp \<Longrightarrow> raise_for_status resp = None \<Longrightarrow>
   \<exists>d. fst (scrape_stock env symb s) = Inr (Some d) \<and> symbol d = symb"
  by (simp add: scrape_stock_def scrape_body_def Let_def extract_indicator_def
      datetime_utcnow_def)

lemma for_topics_nothing_fetched:
  "fst (fetch_news env tp s) = Inr [] \<Longrightarrow>
   for_topics env (tp # topics) (P, s) =
     (case time_sleep env 2 (snd (fetch_news env tp s)) of
        (Inl e, s3) \<Rightarrow> (Inl e, (P, s3))
      | (Inr _, s3) \<Rightarrow> for_topics env topics (P, s3))"
  by (cases "fetch_news env tp s") simp

lemma for_symbols_nothing_scraped:
  "fst (scrape_stock env symb s) = Inr None \<Longrightarrow>
   for_symbols env (symb # symbols) s =
     (case time_sleep env 3 (snd (scrape_stock env symb s)) of
        (Inl e, s3) \<Rightarrow> (Inl e, s3)
      | (Inr _, s3) \<Rightarrow> for_symbols env symbols s3)"
  by (cases "scrape_stock env symb s") simp

lemma steady_scrapes_petr4:
  "fst (scrape_stock steady ''PETR4'' connected_scraper) = Inr (Some petr4)"
  by (simp add: scrape_stock_def scrape_body_def Let_def extract_indicator_def
      datetime_utcnow_def steady_def with_session_def pages_def calm_def raise_for_status_def
      petr4_def mock_data_def dict_get_def)

text \<open>
  C7 as stated has the fetcher of either service return a list: the empty list on a
  transient failure, a list of records on success. \<^verbatim>\<open>scrape_stock\<close> returns no list at
  all: when the request times out, or the site answers 404, it returns \<^verbatim>\<open>None\<close>, and when
  the page is served it returns one dictionary.
\<close>

theorem scrape_stock_returns_no_list_counterexample:
  "fst (scrape_stock unreachable ''PETR4'' connected_scraper) = Inr None \<and>
   fst (scrape_stock missing ''PETR4'' connected_scraper) = Inr None \<and>
   fst (scrape_stock steady ''PETR4'' connected_scraper) = Inr (Some petr4)"
proof -
  have "session_get unreachable (Suc (now connected_scraper)) = Inl (RequestException ''timed out'')"
    "session_get missing (Suc (now connected_scraper)) = Inr \<lparr>status_code = 404, content = []\<rparr>"
    by (simp_all add: unreachable_def missing_def with_session_def)
  from scrape_stock_request_failed [OF this(1), of "''PETR4''"]
    scrape_stock_status [OF this(2), of "''PETR4''"] steady_scrapes_petr4
  show ?thesis by simp
qed

text \<open>
  C7, as amended. When the news client raises an exception of class \<^verbatim>\<open>Exception\<close>,
  \<^verbatim>\<open>fetch_news\<close> logs it and returns the empty list; when the client returns a list,
  \<^verbatim>\<open>fetch_news\<close> returns that list. When the HTTP request of \<^verbatim>\<open>scrape_stock\<close> raises a
  \<^verbatim>\<open>RequestException\<close>, or another exception of class \<^verbatim>\<open>Exception\<close>, or the status of the
  response is an error, \<^verbatim>\<open>scrape_stock\<close> logs the error and returns \<^verbatim>\<open>None\<close>; when the page
  is served it returns one record, of that symbol. No exception of class \<^verbatim>\<open>Exception\<close>
  ever leaves either function. The loop of \<^verbatim>\<open>run\<close> goes on after an empty list, and after
  \<^verbatim>\<open>None\<close>, which it does not publish: it sleeps and turns to the next topic, or symbol.
\<close>

theorem fetchers_do_not_throw:
  "(get_news env (Suc (now s)) = Inl e \<and> is_Exception e \<longrightarrow>
      fetch_news env tp s =
        (Inr [], s\<lparr>trace := trace s @
           [LogInfo ''Fetching news for topic: {topic}'', GetNews tp (Inl e),
            LogError ''Error fetching news for {topic}: {e}'']\<rparr>)) \<and>
   (get_news env (Suc (now s)) = Inr articles \<longrightarrow>
      fetch_news env tp s =
        (Inr articles, s\<lparr>trace := trace s @
           [LogInfo ''Fetching news for topic: {topic}'', GetNews tp (Inr articles)]\<rparr>)) \<and>
   (is_Exception x \<longrightarrow> fst (fetch_news env tp s) \<noteq> Inl x) \<and>
   (fst (fetch_news env tp s) = Inr [] \<longrightarrow>
      for_topics env (tp # topics) (P, s) =
        (case time_sleep env 2 (snd (fetch_news env tp s)) of
           (Inl e, s3) \<Rightarrow> (Inl e, (P, s3))
         | (Inr _, s3) \<Rightarrow> for_topics env topics (P, s3))) \<and>
   (session_get senv (Suc (now s2)) = Inl e2 \<and> is_RequestException e2 \<longrightarrow>
      scrape_stock senv symb s2 =
        (Inr None, s2\<lparr>trace := trace s2 @
           [LogInfo ''Scraping data for {symbol} from {url}'',
            SessionGet (BASE_URL @ ''/'' @ lower symb) 10 (Inl e2),
            LogError ''Error scraping {symbol}: {e}'']\<rparr>)) \<and>
   (session_get senv (Suc (now s2)) = Inl e2 \<and> is_Exception e2 \<and> \<not> is_RequestException e2 \<longrightarrow>
      scrape_stock senv symb s2 =
        (Inr None, s2\<lparr>trace := trace s2 @
           [LogInfo ''Scraping data for {symbol} from {url}'',
            SessionGet (BASE_URL @ ''/'' @ lower symb) 10 (Inl e2),
            LogError ''Unexpected error scraping {symbol}: {e}'']\<rparr>)) \<and>
   (session_get senv (Suc (now s2)) = Inr resp \<and> 400 \<le> status_code resp \<and>
    status_code resp < 600 \<longrightarrow>
      scrape_stock senv symb s2 =
        (Inr None, s2\<lparr>trace := trace s2 @
           [LogInfo ''Scraping data for {symbol} from {url}'',
            SessionGet (BASE_URL @ ''/'' @ lower symb) 10 (Inr resp),
            LogError ''Error scraping {symbol}: {e}'']\<rparr>)) \<and>
   (session_get senv (Suc (now s2)) = Inr resp \<and> raise_for_status resp = None \<longrightarrow>
      (\<exists>d. fst (scrape_stock senv symb s2) = Inr (Some d) \<and> symbol d = symb)) \<and>
   (is_Exception x \<longrightarrow> fst (scrape_stock senv symb s2) \<noteq> Inl x) \<and>
   (fst (scrape_stock senv symb s2) = Inr None \<longrightarrow>
      for_symbols senv (symb # symbols) s2 =
        (case time_sleep senv 3 (snd (scrape_stock senv symb s2)) of
           (Inl e, s3) \<Rightarrow> (Inl e, s3)
         | (Inr _, s3) \<Rightarrow> for_symbols senv symbols s3))"
  using fetch_news_raised [of env s e tp] fetch_news_returned [of env s articles tp]
    fetch_news_no_Exception [of x env tp s] scrape_stock_no_Exception [of x senv symb s2]
    for_topics_nothing_fetched [of env tp s topics P]
    scrape_stock_request_failed [of senv s2 e2 symb] scrape_stock_unexpected [of senv s2 e2 symb]
    scrape_stock_status [of senv s2 resp symb] scrape_stock_returned [of senv s2 resp symb]
    for_symbols_nothing_scraped [of senv symb s2 symbols]
  by blast

text \<open>
  The theorem at a news client that times out and at one that returns an article, and at a
  site that times out, one whose connection breaks with an error that is no
  \<^verbatim>\<open>RequestException\<close>, one that answers 404 and one that serves the page.
\<close>

theorem fetchers_do_not_throw_witness:
  "get_news silent (Suc (now connected)) = Inl (Exception ''timed out'') \<and>
   is_Exception (Exception ''timed out'') \<and>
   fetch_news silent ''bitcoin'' connected =
     (Inr [], connected\<lparr>trace := trace connected @
        [LogInfo ''Fetching news for topic: {topic}'', GetNews ''bitcoin'' (Inl (Exception ''timed out'')),
         LogError ''Error fetching news for {topic}: {e}'']\<rparr>) \<and>
   get_news newsy (Suc (now connected)) = Inr [story] \<and>
   fetch_news newsy ''bitcoin'' connected =
     (Inr [story], connected\<lparr>trace := trace connected @
        [LogInfo ''Fetching news for topic: {topic}'', GetNews ''bitcoin'' (Inr [story])]\<rparr>) \<and>
   fst (fetch_news silent ''bitcoin'' connected) \<noteq> Inl (Exception ''timed out'') \<and>
   fst (fetch_news silent ''bitcoin'' connected) = Inr [] \<and>
   for_topics silent [''bitcoin''] ({||}, connected) =
     (case time_sleep silent 2 (snd (fetch_news silent ''bitcoin'' connected)) of
        (Inl e, s3) \<Rightarrow> (Inl e, ({||}, s3))
      | (Inr _, s3) \<Rightarrow> for_topics silent [] ({||}, s3)) \<and>
   session_get unreachable (Suc (now connected_scraper)) = Inl (RequestException ''timed out'') \<and>
   is_RequestException (RequestException ''timed out'') \<and>
   scrape_stock unreachable ''PETR4'' connected_scraper =
     (Inr None, connected_scraper\<lparr>trace := trace connected_scraper @
        [LogInfo ''Scraping data for {symbol} from {url}'',
         SessionGet (BASE_URL @ ''/'' @ lower ''PETR4'') 10 (Inl (RequestException ''timed out'')),
         LogError ''Error scraping {symbol}: {e}'']\<rparr>) \<and>
   session_get broken (Suc (now connected_scraper)) = Inl (Exception ''Connection reset'') \<and>
   is_Exception (Exception ''Connection reset'') \<and>
   \<not> is_RequestException (Exception ''Connection reset'') \<and>
   scrape_stock broken ''PETR4'' connected_scraper =
     (Inr None, connected_scraper\<lparr>trace := trace connected_scraper @
        [LogInfo ''Scraping data for {symbol} from {url}'',
         SessionGet (BASE_URL @ ''/'' @ lower ''PETR4'') 10 (Inl (Exception ''Connection reset'')),
         LogError ''Unexpected error scraping {symbol}: {e}'']\<rparr>) \<and>
   session_get missing (Suc (now connected_scraper)) = Inr \<lparr>status_code = 404, content = []\<rparr> \<and>
   scrape_stock missing ''PETR4'' connected_scraper =
     (Inr None, connected_scraper\<lparr>trace := trace connected_scraper @
        [LogInfo ''Scraping data for {symbol} from {url}'',
         SessionGet (BASE_URL @ ''/'' @ lower ''PETR4'') 10
           (Inr \<lparr>status_code = 404, content = []\<rparr>),
         LogError ''Error scraping {symbol}: {e}'']\<rparr>) \<and>
   session_get steady (Suc (now connected_scraper)) =
     Inr \<lparr>status_code = 200, content = ''<html></html>''\<rparr> \<and>
   raise_for_status \<lparr>status_code = 200, content = ''<html></html>''\<rparr> = None \<and>
   (\<exists>d. fst (scrape_stock steady ''PETR4'' connected_scraper) = Inr (Some d) \<and>
        symbol d = ''PETR4'') \<and>
   fst (scrape_stock unreachable ''PETR4'' connected_scraper) \<noteq> Inl (Exception ''timed out'') \<and>
   fst (scrape_stock unreachable ''PETR4'' connected_scraper) = Inr None \<and>
   for_symbols unreachable [''PETR4''] connected_scraper =
     (case time_sleep unreachable 3 (snd (scrape_stock unreachable ''PETR4'' connected_scraper)) of
        (Inl e, s3) \<Rightarrow> (Inl e, s3)
      | (Inr _, s3) \<Rightarrow> for_symbols unreachable [] s3)"
proof -
  have g: "get_news silent (Suc (now connected)) = Inl (Exception ''timed out'')"
    "get_news newsy (Suc (now connected)) = Inr [story]"
    "session_get unreachable (Suc (now connected_scraper)) = Inl (RequestException ''timed out'')"
    "session_get broken (Suc (now connected_scraper)) = Inl (Exception ''Connection reset'')"
    "session_get missing (Suc (now connected_scraper)) = Inr \<lparr>status_code = 404, content = []\<rparr>"
    "session_get steady (Suc (now connected_scraper)) =
       Inr \<lparr>status_code = 200, content = ''<html></html>''\<rparr>"
    "raise_for_status \<lparr>status_code = 200, content = ''<html></html>''\<rparr> = None"
    by (simp_all add: silent_def newsy_def unreachable_def broken_def missing_def steady_def
        with_news_def with_session_def pages_def raise_for_status_def)
  note a = fetchers_do_not_throw [of silent connected "Exception ''timed out''" "''bitcoin''" "[]"
      "Exception ''timed out''" "[]" "{||}" unreachable connected_scraper
      "RequestException ''timed out''" "''PETR4''" "\<lparr>status_code = 404, content = []\<rparr>" "[]"]
  note b = fetchers_do_not_throw [of newsy connected "Exception ''timed out''" "''bitcoin''"
      "[story]" "Exception ''timed out''" "[]" "{||}" broken connected_scraper
      "Exception ''Connection reset''" "''PETR4''" "\<lparr>status_code = 404, content = []\<rparr>" "[]"]
  note c = fetchers_do_not_throw [of newsy connected "Exception ''timed out''" "''bitcoin''"
      "[story]" "Exception ''timed out''" "[]" "{||}" missing connected_scraper
      "Exception ''Connection reset''" "''PETR4''" "\<lparr>status_code = 404, content = []\<rparr>" "[]"]
  note d = fetchers_do_not_throw [of newsy connected "Exception ''timed out''" "''bitcoin''"
      "[story]" "Exception ''timed out''" "[]" "{||}" steady connected_scraper
      "Exception ''Connection reset''" "''PETR4''"
      "\<lparr>status_code = 200, content = ''<html></html>''\<rparr>" "[]"]
  from a g have a1: "fetch_news silent ''bitcoin'' connected =
     (Inr [], connected\<lparr>trace := trace connected @
        [LogInfo ''Fetching news for topic: {topic}'', GetNews ''bitcoin'' (Inl (Exception ''timed out'')),
         LogError ''Error fetching news for {topic}: {e}'']\<rparr>)"
    by simp
  from a g have a2: "scrape_stock unreachable ''PETR4'' connected_scraper =
     (Inr None, connected_scraper\<lparr>trace := trace connected_scraper @
        [LogInfo ''Scraping data for {symbol} from {url}'',
         SessionGet (BASE_URL @ ''/'' @ lower ''PETR4'') 10 (Inl (RequestException ''timed out'')),
         LogError ''Error scraping {symbol}: {e}'']\<rparr>)"
    by simp
  from a a1 have a3: "for_topics silent [''bitcoin''] ({||}, connected) =
     (case time_sleep silent 2 (snd (fetch_news silent ''bitcoin'' connected)) of
        (Inl e, s3) \<Rightarrow> (Inl e, ({||}, s3))
      | (Inr _, s3) \<Rightarrow> for_topics silent [] ({||}, s3))"
    by simp
  from a a2 have a4: "for_symbols unreachable [''PETR4''] connected_scraper =
     (case time_sleep unreachable 3 (snd (scrape_stock unreachable ''PETR4'' connected_scraper)) of
        (Inl e, s3) \<Rightarrow> (Inl e, s3)
      | (Inr _, s3) \<Rightarrow> for_symbols unreachable [] s3)"
    by simp
  from a have a5: "fst (fetch_news silent ''bitcoin'' connected) \<noteq> Inl (Exception ''timed out'')"
    "fst (scrape_stock unreachable ''PETR4'' connected_scraper) \<noteq> Inl (Exception ''timed out'')"
    by simp_all
  from b g have b1: "fetch_news newsy ''bitcoin'' connected =
     (Inr [story], connected\<lparr>trace := trace connected @
        [LogInfo ''Fetching news for topic: {topic}'', GetNews ''bitcoin'' (Inr [story])]\<rparr>)"
    by simp
  from b g have b2: "scrape_stock broken ''PETR4'' connected_scraper =
     (Inr None, connected_scraper\<lparr>trace := trace connected_scraper @
        [LogInfo ''Scraping data for {symbol} from {url}'',
         SessionGet (BASE_URL @ ''/'' @ lower ''PETR4'') 10 (Inl (Exception ''Connection reset'')),
         LogError ''Unexpected error scraping {symbol}: {e}'']\<rparr>)"
    by simp
  from c g have c1: "scrape_stock missing ''PETR4'' connected_scraper =
     (Inr None, connected_scraper\<lparr>trace := trace connected_scraper @
        [LogInfo ''Scraping data for {symbol} from {url}'',
         SessionGet (BASE_URL @ ''/'' @ lower ''PETR4'') 10
           (Inr \<lparr>status_code = 404, content = []\<rparr>),
         LogError ''Error scraping {symbol}: {e}'']\<rparr>)"
    by simp
  from d g have d1: "\<exists>d. fst (scrape_stock steady ''PETR4'' connected_scraper) = Inr (Some d) \<and>
        symbol d = ''PETR4''"
    by simp
  from g a1 a2 a3 a4 a5 b1 b2 c1 d1 show ?thesis by simp
qed

subsection \<open>While the broker is out\<close>

lemma quiet_now: "quiet s s' \<Longrightarrow> now s \<le> now s'"
  by (auto simp: quiet_def now_def)

lemma publish_failed:
  "basic_publish_raises env (now s) = Some e \<Longrightarrow> is_Exception e \<Longrightarrow>
   publish env exchange queue info err d s =
     connect_rabbitmq env exchange queue
       (s\<lparr>trace := trace s @
          [BasicPublish exchange [] (json_dumps d) 2 ''application/json'', LogError err]\<rparr>)"
  by (simp add: publish_def call_def emit_def)

lemma publish_outage:
  assumes "broker_out_from k env" and "k \<le> now s"
  shows "\<exists>e. is_Exception e \<and>
           publish env exchange queue info err d s =
             (Inl e, s\<lparr>trace := trace s @
                [BasicPublish exchange [] (json_dumps d) 2 ''application/json'', LogError err] @
                five_failed_attempts\<rparr>)"
proof -
  let ?s1 = "s\<lparr>trace := trace s @
          [BasicPublish exchange [] (json_dumps d) 2 ''application/json'', LogError err]\<rparr>"
  from assms obtain e where e: "basic_publish_raises env (now s) = Some e" "is_Exception e"
    unfolding broker_out_from_def by blast
  have "now s \<le> now ?s1" by (simp add: now_def)
  with assms have
    "\<forall>t\<ge>now ?s1. \<exists>e. BlockingConnection_raises env t = Some e \<and> is_Exception e"
    "\<forall>t\<ge>now ?s1. \<not> sleep_interrupted env t"
    unfolding broker_out_from_def by auto
  from connect_rabbitmq_exhausted_from [OF this, of exchange queue] publish_failed [OF e]
  show ?thesis by auto
qed

lemma news_cycle_outage:
  assumes out: "broker_out_from k env" and k: "k \<le> now s"
    and got: "get_news env (Suc (now s)) = Inr (a # articles)"
    and u: "dict_get (a_url a) [] \<noteq> []" "dict_get (a_url a) [] |\<notin>| P"
  shows "\<exists>e s'. is_Exception e \<and> news_cycle env (P, s) = (Inl e, (P, s')) \<and>
           map url (published (trace s')) =
             map url (published (trace s)) @ [dict_get (a_url a) []] \<and>
           now s \<le> now s'"
proof -
  obtain tp topics where mt: "MARKET_TOPICS = tp # topics"
    by (simp add: MARKET_TOPICS_def)
  let ?s1 = "s\<lparr>trace := trace s @
        [LogInfo ''Fetching news for topic: {topic}'', GetNews tp (Inr (a # articles))]\<rparr>"
  have f: "fetch_news env tp s = (Inr (a # articles), ?s1)"
    using got by (rule fetch_news_returned)
  obtain news s2 where p: "process_article env a tp ?s1 = (news, s2)"
    by (cases "process_article env a tp ?s1")
  from quiet_process_article [OF quiet_refl, of ?s1 env a tp] p have q2: "quiet ?s1 s2" by simp
  have "now s \<le> now ?s1" by (simp add: now_def)
  with quiet_now [OF q2] k have k2: "k \<le> now s2" "now s \<le> now s2" by simp_all
  from publish_outage [OF out k2(1), of "''market_news''" "''news_queue''"
      "''Published news: {title}''" "''Error publishing news: {e}''" news]
  obtain e s3 where e: "is_Exception e" and pb: "publish_news env news s2 = (Inl e, s3)"
    and s3: "s3 = s2\<lparr>trace := trace s2 @
                [BasicPublish ''market_news'' [] (json_dumps news) 2 ''application/json'',
                 LogError ''Error publishing news: {e}''] @ five_failed_attempts\<rparr>"
    unfolding publish_news_def by blast
  have fa: "for_articles env tp (a # articles) (P, ?s1) = (Inl e, (P, s3))"
    using for_articles_publish [OF u p, of articles] pb by simp
  have c: "news_cycle env (P, s) = (Inl e, (P, s3))"
    unfolding news_cycle_def mt using f fa by simp
  from published_publish_news(1) [of env news s2] pb
  have "published (trace s3) = published (trace s2) @ [news]" by simp
  moreover from q2 have "published (trace s2) = published (trace ?s1)" by (rule quiet_published)
  moreover from url_process_article [of env a tp ?s1] p have "url news = dict_get (a_url a) []"
    by simp
  ultimately have "map url (published (trace s3)) =
      map url (published (trace s)) @ [dict_get (a_url a) []]" by simp
  moreover have "now s \<le> now s3" using k2(2) unfolding s3 by (simp add: now_def)
  ultimately show ?thesis using e c by blast
qed

lemma news_loop_outage:
  assumes out: "broker_out_from k env"
    and got: "\<forall>t\<ge>k. \<exists>articles. get_news env t = Inr (a # articles)"
    and u: "dict_get (a_url a) [] \<noteq> []" "dict_get (a_url a) [] |\<notin>| P"
  shows "k \<le> now s \<Longrightarrow>
         fst (news_loop env n (P, s)) = Running \<and>
         map url (published (trace (snd (snd (news_loop env n (P, s)))))) =
           map url (published (trace s)) @ replicate n (dict_get (a_url a) [])"
proof (induction n arbitrary: s)
  case 0
  then show ?case by simp
next
  case (Suc n)
  from got Suc.prems obtain articles where "get_news env (Suc (now s)) = Inr (a # articles)"
    by (meson le_SucI)
  from news_cycle_outage [OF out Suc.prems this u] obtain e s1 where
    e: "is_Exception e" and c: "news_cycle env (P, s) = (Inl e, (P, s1))"
    and p: "map url (published (trace s1)) = map url (published (trace s)) @ [dict_get (a_url a) []]"
    and l: "now s \<le> now s1" by blast
  let ?s2 = "emit (LogError ''Error in main loop: {e}'') s1"
  from out Suc.prems l have "\<not> sleep_interrupted env (now ?s2)"
    unfolding broker_out_from_def by simp
  then have sl: "time_sleep env 30 ?s2 = (Inr (), emit (Sleep 30) ?s2)"
    by (simp add: time_sleep_def)
  from e have ne: "e \<noteq> KeyboardInterrupt" by auto
  have step: "news_loop env (Suc n) (P, s) = news_loop env n (P, emit (Sleep 30) ?s2)"
    using c ne sl by simp
  from Suc.prems l have "k \<le> now (emit (Sleep 30) ?s2)" by simp
  from Suc.IH [OF this] p show ?case
    unfolding step by (simp add: replicate_append_same)
qed

lemma scrape_stock_served:
  assumes "session_get env (Suc (now s)) = Inr resp" and "raise_for_status resp = None"
  shows "\<exists>d s1. scrape_stock env symb s = (Inr (Some d), s1) \<and> symbol d = symb \<and>
           now s \<le> now s1 \<and> published (trace s1) = published (trace s)"
proof -
  obtain r s1 where sc: "scrape_stock env symb s = (r, s1)" by (cases "scrape_stock env symb s")
  with scrape_stock_returned [OF assms, of symb] obtain d where "r = Inr (Some d)" "symbol d = symb"
    by auto
  moreover from quiet_scrape_stock [OF quiet_refl, of s env symb] sc have "quiet s s1" by simp
  ultimately show ?thesis using sc by (auto dest: quiet_now quiet_published)
qed

lemma scraper_cycle_outage:
  assumes out: "broker_out_from k env" and k: "k \<le> now s"
    and got: "session_get env (Suc (now s)) = Inr resp" "raise_for_status resp = None"
  shows "\<exists>e s'. is_Exception e \<and> scraper_cycle env s = (Inl e, s') \<and> now s \<le> now s'"
proof -
  obtain symb symbols where bs: "BRAZILIAN_STOCKS = symb # symbols"
    by (simp add: BRAZILIAN_STOCKS_def)
  from scrape_stock_served [OF got, of symb] obtain d s1 where
    sc: "scrape_stock env symb s = (Inr (Some d), s1)" and l: "now s \<le> now s1" by blast
  from k l have "k \<le> now s1" by simp
  from publish_outage [OF out this, of "''fundamental_data''" "''fundamentals_queue''"
      "''Published fundamental data for {symbol}''" "''Error publishing data: {e}''" d]
  obtain e s2 where e: "is_Exception e" and pb: "publish_data env d s1 = (Inl e, s2)"
    and s2: "s2 = s1\<lparr>trace := trace s1 @
                [BasicPublish ''fundamental_data'' [] (json_dumps d) 2 ''application/json'',
                 LogError ''Error publishing data: {e}''] @ five_failed_attempts\<rparr>"
    unfolding publish_data_def by blast
  have "scraper_cycle env s = (Inl e, s2)"
    unfolding scraper_cycle_def bs using sc pb by simp
  moreover have "now s \<le> now s2" using l unfolding s2 by (simp add: now_def)
  ultimately show ?thesis using e by blast
qed

subsection \<open>C4: a failed publish\<close>

lemma GNewsService_run_outcome:
  "fst (GNewsService_run env fuel s) \<in> {Running, Returned, Raised KeyboardInterrupt}"
proof -
  let ?s3 = "emit (LogInfo ''Check interval: {CHECK_INTERVAL} seconds'')
      (emit (LogInfo ''Monitoring topics: {topics}'') (emit (LogInfo ''GNews Service started'') s))"
  have "fst (GNewsService_run env fuel s) = fst (news_loop env fuel ({||}, ?s3))"
    by (simp add: GNewsService_run_def split: prod.splits)
  with news_loop_outcome [of env fuel "({||}, ?s3)"] show ?thesis
    by (cases "fst (news_loop env fuel ({||}, ?s3))") auto
qed

lemma StatusInvestScraper_run_outcome:
  "fst (StatusInvestScraper_run env fuel s) \<in> {Running, Returned, Raised KeyboardInterrupt}"
  using scraper_loop_outcome [of env fuel]
  by (cases "fst (StatusInvestScraper_run env fuel s)") (auto simp: StatusInvestScraper_run_def)

lemma attempts_try_connect:
  "attempts (trace (snd (try_connect env exchange queue s))) = Suc (attempts (trace s))"
  by (simp add: try_connect_def call_def andthen_def attempts_def emit_def split: option.splits)

lemma attempts_time_sleep:
  "attempts (trace (snd (time_sleep env secs s))) = attempts (trace s)"
  by (simp add: time_sleep_def attempts_def)

lemma attempts_connect_attempts:
  "attempts (trace s) \<le> attempts (trace (snd (connect_attempts env exchange queue atts s))) \<and>
   attempts (trace (snd (connect_attempts env exchange queue atts s))) \<le>
     attempts (trace s) + length atts \<and>
   (atts \<noteq> [] \<longrightarrow>
      Suc (attempts (trace s)) \<le>
        attempts (trace (snd (connect_attempts env exchange queue atts s))))"
proof (induction atts arbitrary: s)
  case Nil
  then show ?case by simp
next
  case (Cons attempt rest)
  obtain r s1 where t: "try_connect env exchange queue s = (r, s1)"
    by (cases "try_connect env exchange queue s")
  with attempts_try_connect [of env exchange queue s]
  have a1: "attempts (trace s1) = Suc (attempts (trace s))" by simp
  let ?s2 = "emit (LogError failed_to_connect) s1"
  have a2: "attempts (trace ?s2) = Suc (attempts (trace s))"
    using a1 by (simp add: attempts_def)
  obtain r' s3 where sl: "time_sleep env retry_delay ?s2 = (r', s3)"
    by (cases "time_sleep env retry_delay ?s2")
  with attempts_time_sleep [of env retry_delay ?s2] a2
  have a3: "attempts (trace s3) = Suc (attempts (trace s))" by simp
  show ?case
    using t sl a1 a2 a3 Cons.IH [of s3]
    by (auto simp: Let_def split: sum.splits)
qed

lemma attempts_publish:
  assumes "basic_publish_raises env (now s) = Some e" and "is_Exception e"
  shows "Suc (attempts (trace s)) \<le>
           attempts (trace (snd (publish env exchange queue info err d s))) \<and>
         attempts (trace (snd (publish env exchange queue info err d s))) \<le>
           attempts (trace s) + 5"
proof -
  let ?s1 = "s\<lparr>trace := trace s @
          [BasicPublish exchange [] (json_dumps d) 2 ''application/json'', LogError err]\<rparr>"
  have "attempts (trace ?s1) = attempts (trace s)" by (simp add: attempts_def)
  with attempts_connect_attempts [of ?s1 env exchange queue "[0..<max_retries]"]
  show ?thesis
    unfolding publish_failed [OF assms] connect_rabbitmq_def by (simp add: max_retries_def)
qed

lemma publish_reconnected:
  assumes "basic_publish_raises env (now s) = Some e" and "is_Exception e"
    and "BlockingConnection_raises env (now s + 2) = None"
    and "\<forall>t\<in>{now s + 3..now s + 6}. channel_raises env t = None"
  shows "publish env exchange queue info err d s =
     (Inr (), s\<lparr>connection := Some (now s + 2), channel := Some (now s + 3),
                trace := trace s @
                  [BasicPublish exchange [] (json_dumps d) 2 ''application/json'', LogError err] @
                  declared exchange queue\<rparr>)"
proof -
  from assms(4) have "channel_raises env (now s + 3) = None" "channel_raises env (now s + 4) = None"
    "channel_raises env (now s + 5) = None" "channel_raises env (now s + 6) = None"
    by simp_all
  with assms(3) show ?thesis
    unfolding publish_failed [OF assms(1,2)]
    by (simp add: connect_rabbitmq_def upt_rec max_retries_def try_connect_def call_def
        andthen_def declared_def emit_def now_def numeral_eq_Suc)
qed

lemma publish_not_reconnected:
  assumes "basic_publish_raises env (now s) = Some e" and "is_Exception e"
    and "\<forall>t\<in>{now s + 2..now s + 14}.
           \<exists>e'. BlockingConnection_raises env t = Some e' \<and> is_Exception e'"
    and "\<forall>t\<in>{now s + 2..now s + 14}. \<not> sleep_interrupted env t"
  shows "\<exists>e'. BlockingConnection_raises env (now s + 14) = Some e' \<and> is_Exception e' \<and>
           publish env exchange queue info err d s =
             (Inl e', s\<lparr>trace := trace s @
                [BasicPublish exchange [] (json_dumps d) 2 ''application/json'', LogError err] @
                five_failed_attempts\<rparr>)"
proof -
  let ?s1 = "s\<lparr>trace := trace s @
          [BasicPublish exchange [] (json_dumps d) 2 ''application/json'', LogError err]\<rparr>"
  have n: "now ?s1 = now s + 2" by (simp add: now_def)
  from assms(3,4) have
    "\<forall>t\<in>{now ?s1..now ?s1 + 12}. \<exists>e. BlockingConnection_raises env t = Some e \<and> is_Exception e"
    "\<forall>t\<in>{now ?s1..now ?s1 + 12}. \<not> sleep_interrupted env t"
    unfolding n by simp_all
  from connect_rabbitmq_exhausted_within [OF this, of exchange queue] n
  show ?thesis unfolding publish_failed [OF assms(1,2)] by (auto simp: add.commute)
qed

lemma outage_refuses:
  "basic_publish_raises outage t = Some (Exception ''Channel closed'')"
  "BlockingConnection_raises outage t = Some (Exception ''Connection refused'')"
  "\<not> sleep_interrupted outage t"
  "basic_publish_raises scraper_outage t = Some (Exception ''Channel closed'')"
  "BlockingConnection_raises scraper_outage t = Some (Exception ''Connection refused'')"
  "\<not> sleep_interrupted scraper_outage t"
  by (simp_all add: outage_def scraper_outage_def with_news_def with_session_def broker_down_def
      calm_def)

text \<open>
  C4 as stated has exactly one reconnect attempt after a failed write. During an outage of
  the broker the write of \<^verbatim>\<open>publish_news\<close> fails, and the reconnect that follows tries the
  connection five times, with the four delays in between; the error of the fifth attempt
  then leaves \<^verbatim>\<open>publish_news\<close> and reaches its caller. The same happens in \<^verbatim>\<open>publish_data\<close>.
\<close>

theorem one_reconnect_attempt_counterexample:
  "publish_news outage headline connected =
     (Inl (Exception ''Connection refused''),
      connected\<lparr>trace := trace connected @
        [BasicPublish ''market_news'' [] (json_dumps headline) 2 ''application/json'',
         LogError ''Error publishing news: {e}''] @ five_failed_attempts\<rparr>) \<and>
   attempts (trace (snd (publish_news outage headline connected))) =
     attempts (trace connected) + 5 \<and>
   delays (trace (snd (publish_news outage headline connected))) = 4 \<and>
   publish_data scraper_outage petr4 connected_scraper =
     (Inl (Exception ''Connection refused''),
      connected_scraper\<lparr>trace := trace connected_scraper @
        [BasicPublish ''fundamental_data'' [] (json_dumps petr4) 2 ''application/json'',
         LogError ''Error publishing data: {e}''] @ five_failed_attempts\<rparr>) \<and>
   attempts (trace (snd (publish_data scraper_outage petr4 connected_scraper))) =
     attempts (trace connected_scraper) + 5 \<and>
   delays (trace (snd (publish_data scraper_outage petr4 connected_scraper))) = 4"
proof -
  from publish_not_reconnected [of outage connected "Exception ''Channel closed''"
      "''market_news''" "''news_queue''" "''Published news: {title}''"
      "''Error publishing news: {e}''" headline] outage_refuses(1,2,3)
  have a: "publish_news outage headline connected =
     (Inl (Exception ''Connection refused''),
      connected\<lparr>trace := trace connected @
        [BasicPublish ''market_news'' [] (json_dumps headline) 2 ''application/json'',
         LogError ''Error publishing news: {e}''] @ five_failed_attempts\<rparr>)"
    unfolding publish_news_def by simp
  from publish_not_reconnected [of scraper_outage connected_scraper "Exception ''Channel closed''"
      "''fundamental_data''" "''fundamentals_queue''" "''Published fundamental data for {symbol}''"
      "''Error publishing data: {e}''" petr4] outage_refuses(4,5,6)
  have b: "publish_data scraper_outage petr4 connected_scraper =
     (Inl (Exception ''Connection refused''),
      connected_scraper\<lparr>trace := trace connected_scraper @
        [BasicPublish ''fundamental_data'' [] (json_dumps petr4) 2 ''application/json'',
         LogError ''Error publishing data: {e}''] @ five_failed_attempts\<rparr>)"
    unfolding publish_data_def by simp
  have "attempts (trace (snd (publish_news outage headline connected))) =
      attempts (trace connected) + 5"
    "attempts (trace (snd (publish_data scraper_outage petr4 connected_scraper))) =
      attempts (trace connected_scraper) + 5"
    unfolding a b
    by (simp_all add: attempts_def five_failed_attempts_def failed_attempt_def)
  moreover have "delays (trace (snd (publish_news outage headline connected))) = 4"
    "delays (trace (snd (publish_data scraper_outage petr4 connected_scraper))) = 4"
    unfolding a b
    by (simp_all add: delays_def connected_def connected_scraper_def declared_def
        five_failed_attempts_def failed_attempt_def retry_delay_def)
  ultimately show ?thesis using a b by simp
qed

text \<open>
  C4, as amended. When \<^verbatim>\<open>basic_publish\<close> raises an exception of class \<^verbatim>\<open>Exception\<close>,
  \<^verbatim>\<open>publish_news\<close> logs the error and calls \<^verbatim>\<open>connect_rabbitmq\<close> once; what that call returns
  or raises is what \<^verbatim>\<open>publish_news\<close> returns or raises, and it tries the connection at least
  once and at most five times. When the broker accepts the first of these attempts and the
  four calls on the channel that follow, it is the only attempt, the topology is declared
  again and \<^verbatim>\<open>publish_news\<close> returns. When the
  broker refuses every connection and no delay is cut short until the fifth attempt, there
  are the five attempts and
  \<^verbatim>\<open>publish_news\<close> raises the error of the fifth to its caller. The record is handed to
  \<^verbatim>\<open>basic_publish\<close> exactly once in the call, failed or not: there is no second try. The
  same holds for \<^verbatim>\<open>publish_data\<close>. An exception that leaves the publisher stops at its
  caller: \<^verbatim>\<open>run\<close> is still running, or has returned, or was left by a
  \<^verbatim>\<open>KeyboardInterrupt\<close>, and never by an exception of class \<^verbatim>\<open>Exception\<close>.
\<close>

theorem publish_failure_recovery:
  "(basic_publish_raises env (now s) = Some e \<and> is_Exception e \<longrightarrow>
      publish_news env d s =
        GNewsService_connect_rabbitmq env
          (s\<lparr>trace := trace s @
             [BasicPublish ''market_news'' [] (json_dumps d) 2 ''application/json'',
              LogError ''Error publishing news: {e}'']\<rparr>) \<and>
      Suc (attempts (trace s)) \<le> attempts (trace (snd (publish_news env d s))) \<and>
      attempts (trace (snd (publish_news env d s))) \<le> attempts (trace s) + 5) \<and>
   (basic_publish_raises env (now s) = Some e \<and> is_Exception e \<and>
    BlockingConnection_raises env (now s + 2) = None \<and>
    (\<forall>t\<in>{now s + 3..now s + 6}. channel_raises env t = None) \<longrightarrow>
      publish_news env d s =
        (Inr (), s\<lparr>connection := Some (now s + 2), channel := Some (now s + 3),
                   trace := trace s @
                     [BasicPublish ''market_news'' [] (json_dumps d) 2 ''application/json'',
                      LogError ''Error publishing news: {e}''] @
                     declared ''market_news'' ''news_queue''\<rparr>)) \<and>
   (basic_publish_raises env (now s) = Some e \<and> is_Exception e \<and>
    (\<forall>t\<in>{now s + 2..now s + 14}.
       \<exists>e'. BlockingConnection_raises env t = Some e' \<and> is_Exception e') \<and>
    (\<forall>t\<in>{now s + 2..now s + 14}. \<not> sleep_interrupted env t) \<longrightarrow>
      (\<exists>e'. BlockingConnection_raises env (now s + 14) = Some e' \<and> is_Exception e' \<and>
         publish_news env d s =
           (Inl e', s\<lparr>trace := trace s @
              [BasicPublish ''market_news'' [] (json_dumps d) 2 ''application/json'',
               LogError ''Error publishing news: {e}''] @ five_failed_attempts\<rparr>))) \<and>
   published (trace (snd (publish_news env d s))) = published (trace s) @ [d] \<and>
   (basic_publish_raises env (now s2) = Some e \<and> is_Exception e \<longrightarrow>
      publish_data env d2 s2 =
        StatusInvestScraper_connect_rabbitmq env
          (s2\<lparr>trace := trace s2 @
             [BasicPublish ''fundamental_data'' [] (json_dumps d2) 2 ''application/json'',
              LogError ''Error publishing data: {e}'']\<rparr>) \<and>
      Suc (attempts (trace s2)) \<le> attempts (trace (snd (publish_data env d2 s2))) \<and>
      attempts (trace (snd (publish_data env d2 s2))) \<le> attempts (trace s2) + 5) \<and>
   (basic_publish_raises env (now s2) = Some e \<and> is_Exception e \<and>
    BlockingConnection_raises env (now s2 + 2) = None \<and>
    (\<forall>t\<in>{now s2 + 3..now s2 + 6}. channel_raises env t = None) \<longrightarrow>
      publish_data env d2 s2 =
        (Inr (), s2\<lparr>connection := Some (now s2 + 2), channel := Some (now s2 + 3),
                    trace := trace s2 @
                      [BasicPublish ''fundamental_data'' [] (json_dumps d2) 2 ''application/json'',
                       LogError ''Error publishing data: {e}''] @
                      declared ''fundamental_data'' ''fundamentals_queue''\<rparr>)) \<and>
   (basic_publish_raises env (now s2) = Some e \<and> is_Exception e \<and>
    (\<forall>t\<in>{now s2 + 2..now s2 + 14}.
       \<exists>e'. BlockingConnection_raises env t = Some e' \<and> is_Exception e') \<and>
    (\<forall>t\<in>{now s2 + 2..now s2 + 14}. \<not> sleep_interrupted env t) \<longrightarrow>
      (\<exists>e'. BlockingConnection_raises env (now s2 + 14) = Some e' \<and> is_Exception e' \<and>
         publish_data env d2 s2 =
           (Inl e', s2\<lparr>trace := trace s2 @
              [BasicPublish ''fundamental_data'' [] (json_dumps d2) 2 ''application/json'',
               LogError ''Error publishing data: {e}''] @ five_failed_attempts\<rparr>))) \<and>
   published (trace (snd (publish_data env d2 s2))) = published (trace s2) @ [d2] \<and>
   fst (GNewsService_run nenv fuel ns) \<in> {Running, Returned, Raised KeyboardInterrupt} \<and>
   fst (StatusInvestScraper_run senv fuel ss) \<in> {Running, Returned, Raised KeyboardInterrupt}"
proof -
  note n = publish_failed [of env s e "''market_news''" "''news_queue''"
      "''Published news: {title}''" "''Error publishing news: {e}''" d]
    attempts_publish [of env s e "''market_news''" "''news_queue''"
      "''Published news: {title}''" "''Error publishing news: {e}''" d]
    publish_reconnected [of env s e "''market_news''" "''news_queue''"
      "''Published news: {title}''" "''Error publishing news: {e}''" d]
    publish_not_reconnected [of env s e "''market_news''" "''news_queue''"
      "''Published news: {title}''" "''Error publishing news: {e}''" d]
    published_publish [of env "''market_news''" "''news_queue''"
      "''Published news: {title}''" "''Error publishing news: {e}''" d s]
  note m = publish_failed [of env s2 e "''fundamental_data''" "''fundamentals_queue''"
      "''Published fundamental data for {symbol}''" "''Error publishing data: {e}''" d2]
    attempts_publish [of env s2 e "''fundamental_data''" "''fundamentals_queue''"
      "''Published fundamental data for {symbol}''" "''Error publishing data: {e}''" d2]
    publish_reconnected [of env s2 e "''fundamental_data''" "''fundamentals_queue''"
      "''Published fundamental data for {symbol}''" "''Error publishing data: {e}''" d2]
    publish_not_reconnected [of env s2 e "''fundamental_data''" "''fundamentals_queue''"
      "''Published fundamental data for {symbol}''" "''Error publishing data: {e}''" d2]
    published_publish [of env "''fundamental_data''" "''fundamentals_queue''"
      "''Published fundamental data for {symbol}''" "''Error publishing data: {e}''" d2 s2]
  from n m GNewsService_run_outcome [of nenv fuel ns]
    StatusInvestScraper_run_outcome [of senv fuel ss]
  show ?thesis
    unfolding publish_news_def publish_data_def GNewsService_connect_rabbitmq_def
      StatusInvestScraper_connect_rabbitmq_def
    by blast
qed

lemma lossy_accepts:
  "basic_publish_raises lossy t = Some (Exception ''Channel closed'')"
  "BlockingConnection_raises lossy t = None" "channel_raises lossy t = None"
  by (simp_all add: lossy_def calm_def)

text \<open>
  The theorem at a broker that fails the publish of a record of each service and accepts
  the reconnect, and at one that fails the publish and refuses every connection.
\<close>

theorem publish_failure_recovery_witness:
  "basic_publish_raises lossy (now connected) = Some (Exception ''Channel closed'') \<and>
   is_Exception (Exception ''Channel closed'') \<and>
   BlockingConnection_raises lossy (now connected + 2) = None \<and>
   (\<forall>t. channel_raises lossy t = None) \<and>
   publish_news lossy headline connected =
     GNewsService_connect_rabbitmq lossy
       (connected\<lparr>trace := trace connected @
          [BasicPublish ''market_news'' [] (json_dumps headline) 2 ''application/json'',
           LogError ''Error publishing news: {e}'']\<rparr>) \<and>
   Suc (attempts (trace connected)) \<le> attempts (trace (snd (publish_news lossy headline connected))) \<and>
   attempts (trace (snd (publish_news lossy headline connected))) \<le> attempts (trace connected) + 5 \<and>
   publish_news lossy headline connected =
     (Inr (), connected\<lparr>connection := Some (now connected + 2),
        channel := Some (now connected + 3),
        trace := trace connected @
          [BasicPublish ''market_news'' [] (json_dumps headline) 2 ''application/json'',
           LogError ''Error publishing news: {e}''] @
          declared ''market_news'' ''news_queue''\<rparr>) \<and>
   basic_publish_raises lossy (now connected_scraper) = Some (Exception ''Channel closed'') \<and>
   BlockingConnection_raises lossy (now connected_scraper + 2) = None \<and>
   publish_data lossy petr4 connected_scraper =
     (Inr (), connected_scraper\<lparr>connection := Some (now connected_scraper + 2),
        channel := Some (now connected_scraper + 3),
        trace := trace connected_scraper @
          [BasicPublish ''fundamental_data'' [] (json_dumps petr4) 2 ''application/json'',
           LogError ''Error publishing data: {e}''] @
          declared ''fundamental_data'' ''fundamentals_queue''\<rparr>) \<and>
   basic_publish_raises outage (now connected) = Some (Exception ''Channel closed'') \<and>
   (\<forall>t. \<exists>e'. BlockingConnection_raises outage t = Some e' \<and> is_Exception e') \<and>
   (\<forall>t. \<not> sleep_interrupted outage t) \<and>
   (\<exists>e'. BlockingConnection_raises outage (now connected + 14) = Some e' \<and> is_Exception e' \<and>
      publish_news outage headline connected =
        (Inl e', connected\<lparr>trace := trace connected @
           [BasicPublish ''market_news'' [] (json_dumps headline) 2 ''application/json'',
            LogError ''Error publishing news: {e}''] @ five_failed_attempts\<rparr>)) \<and>
   basic_publish_raises scraper_outage (now connected_scraper) =
     Some (Exception ''Channel closed'') \<and>
   (\<forall>t. \<exists>e'. BlockingConnection_raises scraper_outage t = Some e' \<and> is_Exception e') \<and>
   (\<forall>t. \<not> sleep_interrupted scraper_outage t) \<and>
   (\<exists>e'. BlockingConnection_raises scraper_outage (now connected_scraper + 14) = Some e' \<and>
      is_Exception e' \<and>
      publish_data scraper_outage petr4 connected_scraper =
        (Inl e', connected_scraper\<lparr>trace := trace connected_scraper @
           [BasicPublish ''fundamental_data'' [] (json_dumps petr4) 2 ''application/json'',
            LogError ''Error publishing data: {e}''] @ five_failed_attempts\<rparr>))"
proof -
  note t = publish_failure_recovery [of lossy connected "Exception ''Channel closed''" headline
      connected_scraper petr4]
  note u = publish_failure_recovery [of outage connected "Exception ''Channel closed''" headline]
  note v = publish_failure_recovery [of scraper_outage _ "Exception ''Channel closed''" _
      connected_scraper petr4]
  have h: "is_Exception (Exception ''Channel closed'')" by simp
  have l1: "basic_publish_raises lossy (now connected) = Some (Exception ''Channel closed'')"
    and l2: "BlockingConnection_raises lossy (now connected + 2) = None"
    and l3: "\<forall>t\<in>{now connected + 3..now connected + 6}. channel_raises lossy t = None"
    and l4: "basic_publish_raises lossy (now connected_scraper) = Some (Exception ''Channel closed'')"
    and l5: "BlockingConnection_raises lossy (now connected_scraper + 2) = None"
    and l6: "\<forall>t\<in>{now connected_scraper + 3..now connected_scraper + 6}.
                channel_raises lossy t = None"
    by (simp_all add: lossy_accepts)
  have o1: "basic_publish_raises outage (now connected) = Some (Exception ''Channel closed'')"
    and o2: "\<forall>t\<in>{now connected + 2..now connected + 14}.
      \<exists>e'. BlockingConnection_raises outage t = Some e' \<and> is_Exception e'"
    and o3: "\<forall>t\<in>{now connected + 2..now connected + 14}. \<not> sleep_interrupted outage t"
    and o4: "basic_publish_raises scraper_outage (now connected_scraper) =
      Some (Exception ''Channel closed'')"
    and o5: "\<forall>t\<in>{now connected_scraper + 2..now connected_scraper + 14}.
      \<exists>e'. BlockingConnection_raises scraper_outage t = Some e' \<and> is_Exception e'"
    and o6: "\<forall>t\<in>{now connected_scraper + 2..now connected_scraper + 14}.
      \<not> sleep_interrupted scraper_outage t"
    by (simp_all add: outage_refuses)
  from l1 h have "basic_publish_raises lossy (now connected) = Some (Exception ''Channel closed'') \<and>
      is_Exception (Exception ''Channel closed'')" by simp
  note aa = t [THEN conjunct1, THEN mp, OF this]
  note a = aa [THEN conjunct1] and a2 = aa [THEN conjunct2, THEN conjunct1]
    and a3 = aa [THEN conjunct2, THEN conjunct2]
  from l1 h l2 l3 have "basic_publish_raises lossy (now connected) = Some (Exception ''Channel closed'') \<and>
      is_Exception (Exception ''Channel closed'') \<and>
      BlockingConnection_raises lossy (now connected + 2) = None \<and>
      (\<forall>t\<in>{now connected + 3..now connected + 6}. channel_raises lossy t = None)" by simp
  from t [THEN conjunct2, THEN conjunct1, THEN mp, OF this]
  have b: "publish_news lossy headline connected =
     (Inr (), connected\<lparr>connection := Some (now connected + 2),
        channel := Some (now connected + 3),
        trace := trace connected @
          [BasicPublish ''market_news'' [] (json_dumps headline) 2 ''application/json'',
           LogError ''Error publishing news: {e}''] @
          declared ''market_news'' ''news_queue''\<rparr>)" .
  from l4 h l5 l6 have "basic_publish_raises lossy (now connected_scraper) =
        Some (Exception ''Channel closed'') \<and>
      is_Exception (Exception ''Channel closed'') \<and>
      BlockingConnection_raises lossy (now connected_scraper + 2) = None \<and>
      (\<forall>t\<in>{now connected_scraper + 3..now connected_scraper + 6}. channel_raises lossy t = None)"
    by simp
  from t [THEN conjunct2, THEN conjunct2, THEN conjunct2, THEN conjunct2, THEN conjunct2,
      THEN conjunct1, THEN mp, OF this]
  have c: "publish_data lossy petr4 connected_scraper =
     (Inr (), connected_scraper\<lparr>connection := Some (now connected_scraper + 2),
        channel := Some (now connected_scraper + 3),
        trace := trace connected_scraper @
          [BasicPublish ''fundamental_data'' [] (json_dumps petr4) 2 ''application/json'',
           LogError ''Error publishing data: {e}''] @
          declared ''fundamental_data'' ''fundamentals_queue''\<rparr>)" .
  from o1 h o2 o3 have "basic_publish_raises outage (now connected) =
        Some (Exception ''Channel closed'') \<and>
      is_Exception (Exception ''Channel closed'') \<and>
      (\<forall>t\<in>{now connected + 2..now connected + 14}.
         \<exists>e'. BlockingConnection_raises outage t = Some e' \<and> is_Exception e') \<and>
      (\<forall>t\<in>{now connected + 2..now connected + 14}. \<not> sleep_interrupted outage t)"
    by simp
  from u [THEN conjunct2, THEN conjunct2, THEN conjunct1, THEN mp, OF this]
  have d: "\<exists>e'. BlockingConnection_raises outage (now connected + 14) = Some e' \<and> is_Exception e' \<and>
      publish_news outage headline connected =
        (Inl e', connected\<lparr>trace := trace connected @
           [BasicPublish ''market_news'' [] (json_dumps headline) 2 ''application/json'',
            LogError ''Error publishing news: {e}''] @ five_failed_attempts\<rparr>)" .
  from o4 h o5 o6 have "basic_publish_raises scraper_outage (now connected_scraper) =
        Some (Exception ''Channel closed'') \<and>
      is_Exception (Exception ''Channel closed'') \<and>
      (\<forall>t\<in>{now connected_scraper + 2..now connected_scraper + 14}.
         \<exists>e'. BlockingConnection_raises scraper_outage t = Some e' \<and> is_Exception e') \<and>
      (\<forall>t\<in>{now connected_scraper + 2..now connected_scraper + 14}.
         \<not> sleep_interrupted scraper_outage t)"
    by simp
  from v [THEN conjunct2, THEN conjunct2, THEN conjunct2, THEN conjunct2, THEN conjunct2,
      THEN conjunct2, THEN conjunct1, THEN mp, OF this]
  have e: "\<exists>e'. BlockingConnection_raises scraper_outage (now connected_scraper + 14) = Some e' \<and>
      is_Exception e' \<and>
      publish_data scraper_outage petr4 connected_scraper =
        (Inl e', connected_scraper\<lparr>trace := trace connected_scraper @
           [BasicPublish ''fundamental_data'' [] (json_dumps petr4) 2 ''application/json'',
            LogError ''Error publishing data: {e}''] @ five_failed_attempts\<rparr>)" .
  have w: "\<forall>t. channel_raises lossy t = None"
    "\<forall>t. \<exists>e'. BlockingConnection_raises outage t = Some e' \<and> is_Exception e'"
    "\<forall>t. \<not> sleep_interrupted outage t"
    "\<forall>t. \<exists>e'. BlockingConnection_raises scraper_outage t = Some e' \<and> is_Exception e'"
    "\<forall>t. \<not> sleep_interrupted scraper_outage t"
    by (simp_all add: lossy_accepts outage_refuses)
  from l1 h l2 w a a2 a3 b l4 l5 c o1 d o4 e
  show ?thesis by - (intro conjI, assumption+)
qed

subsection \<open>C5: the loop of the driver\<close>

lemma news_loop_resumes:
  assumes "news_cycle env st = (Inl e, (P, s1))" and "is_Exception e"
    and "\<not> sleep_interrupted env (Suc (now s1))"
  shows "news_loop env (Suc n) st =
         news_loop env n
           (P, s1\<lparr>trace := trace s1 @ [LogError ''Error in main loop: {e}'', Sleep 30]\<rparr>)"
proof -
  from assms(2) have "e \<noteq> KeyboardInterrupt" by auto
  with assms(1,3) show ?thesis by (simp add: time_sleep_def emit_def now_def)
qed

lemma scraper_loop_resumes:
  assumes "scraper_cycle env s = (Inl e, s1)" and "is_Exception e"
    and "\<not> sleep_interrupted env (Suc (now s1))"
  shows "scraper_loop env (Suc n) s =
         scraper_loop env n
           (s1\<lparr>trace := trace s1 @ [LogError ''Error in main loop: {e}'', Sleep 30]\<rparr>)"
proof -
  from assms(2) have "e \<noteq> KeyboardInterrupt" by auto
  with assms(1,3) show ?thesis by (simp add: time_sleep_def emit_def now_def)
qed

lemma news_loop_interrupted:
  "news_cycle env st = (Inl KeyboardInterrupt, (P, s1)) \<Longrightarrow>
   news_loop env (Suc n) st =
     (Returned, (P, s1\<lparr>trace := trace s1 @ [LogInfo ''Shutting down GNews Service...'']\<rparr>))"
  by (simp add: emit_def)

lemma scraper_loop_interrupted:
  "scraper_cycle env s = (Inl KeyboardInterrupt, s1) \<Longrightarrow>
   scraper_loop env (Suc n) s =
     (Returned, s1\<lparr>trace := trace s1 @ [LogInfo ''Shutting down Scraping Worker...'']\<rparr>)"
  by (simp add: emit_def)

lemma GNewsService_run_uninterrupted:
  assumes "broker_uninterrupted env" and "\<forall>t. get_news env t \<noteq> Inl KeyboardInterrupt"
  shows "fst (GNewsService_run env fuel s) = Running"
proof -
  let ?s3 = "emit (LogInfo ''Check interval: {CHECK_INTERVAL} seconds'')
      (emit (LogInfo ''Monitoring topics: {topics}'') (emit (LogInfo ''GNews Service started'') s))"
  have "fst (GNewsService_run env fuel s) = fst (news_loop env fuel ({||}, ?s3))"
    by (simp add: GNewsService_run_def split: prod.splits)
  with news_loop_uninterrupted [OF assms, of fuel "({||}, ?s3)"] show ?thesis by simp
qed

lemma StatusInvestScraper_run_uninterrupted:
  assumes "broker_uninterrupted env" and "\<forall>t. session_get env t \<noteq> Inl KeyboardInterrupt"
  shows "fst (StatusInvestScraper_run env fuel s) = Running"
  using scraper_loop_uninterrupted [OF assms, of fuel]
  by (simp add: StatusInvestScraper_run_def)

text \<open>
  C5. When a cycle of \<^verbatim>\<open>run\<close> is left by an exception of class \<^verbatim>\<open>Exception\<close>, the loop logs
  it, sleeps 30 seconds and, unless an interrupt cuts that sleep, goes into the next cycle
  with the cache as it was. When a cycle is left by a \<^verbatim>\<open>KeyboardInterrupt\<close>, the loop logs
  the shutdown and \<^verbatim>\<open>run\<close> returns. In an outside that never delivers an interrupt, the loop
  is still running after any number of cycles, whatever else fails; and \<^verbatim>\<open>run\<close> is never
  left otherwise than by returning or by a \<^verbatim>\<open>KeyboardInterrupt\<close>. This holds for both
  services.
\<close>

theorem driver_loop_resumes:
  "(news_cycle env st = (Inl e, (P, s1)) \<and> is_Exception e \<and>
    \<not> sleep_interrupted env (Suc (now s1)) \<longrightarrow>
      news_loop env (Suc n) st =
        news_loop env n
          (P, s1\<lparr>trace := trace s1 @ [LogError ''Error in main loop: {e}'', Sleep 30]\<rparr>)) \<and>
   (scraper_cycle senv ss = (Inl e2, ss1) \<and> is_Exception e2 \<and>
    \<not> sleep_interrupted senv (Suc (now ss1)) \<longrightarrow>
      scraper_loop senv (Suc n) ss =
        scraper_loop senv n
          (ss1\<lparr>trace := trace ss1 @ [LogError ''Error in main loop: {e}'', Sleep 30]\<rparr>)) \<and>
   (news_cycle env st = (Inl KeyboardInterrupt, (P, s1)) \<longrightarrow>
      news_loop env (Suc n) st =
        (Returned, (P, s1\<lparr>trace := trace s1 @ [LogInfo ''Shutting down GNews Service...'']\<rparr>))) \<and>
   (scraper_cycle senv ss = (Inl KeyboardInterrupt, ss1) \<longrightarrow>
      scraper_loop senv (Suc n) ss =
        (Returned, ss1\<lparr>trace := trace ss1 @ [LogInfo ''Shutting down Scraping Worker...'']\<rparr>)) \<and>
   (broker_uninterrupted env \<and> (\<forall>t. get_news env t \<noteq> Inl KeyboardInterrupt) \<longrightarrow>
      fst (GNewsService_run env fuel s) = Running) \<and>
   (broker_uninterrupted senv \<and> (\<forall>t. session_get senv t \<noteq> Inl KeyboardInterrupt) \<longrightarrow>
      fst (StatusInvestScraper_run senv fuel ss0) = Running) \<and>
   fst (GNewsService_run env fuel s) \<in> {Running, Returned, Raised KeyboardInterrupt} \<and>
   fst (StatusInvestScraper_run senv fuel ss0) \<in> {Running, Returned, Raised KeyboardInterrupt}"
  using news_loop_resumes [of env st e P s1 n] scraper_loop_resumes [of senv ss e2 ss1 n]
    news_loop_interrupted [of env st P s1 n] scraper_loop_interrupted [of senv ss ss1 n]
    GNewsService_run_uninterrupted [of env fuel s]
    StatusInvestScraper_run_uninterrupted [of senv fuel ss0]
    GNewsService_run_outcome [of env fuel s] StatusInvestScraper_run_outcome [of senv fuel ss0]
  by blast

lemma outage_out: "broker_out_from 0 outage" "broker_out_from 0 scraper_outage"
  by (simp_all add: broker_out_from_def outage_def scraper_outage_def with_news_def
      with_session_def broker_down_def calm_def)

lemma calm_uninterrupted:
  "broker_uninterrupted newsy" "\<forall>t. get_news newsy t \<noteq> Inl KeyboardInterrupt"
  "broker_uninterrupted steady" "\<forall>t. session_get steady t \<noteq> Inl KeyboardInterrupt"
  by (simp_all add: broker_uninterrupted_def newsy_def steady_def with_news_def with_session_def
      calm_def pages_def)

lemma interrupted_cycles:
  "news_cycle interrupted_news ({||}, connected) =
     (Inl KeyboardInterrupt,
      ({||}, connected\<lparr>trace := trace connected @
         [LogInfo ''Fetching news for topic: {topic}'',
          GetNews ''stock market'' (Inl KeyboardInterrupt)]\<rparr>))"
  "scraper_cycle interrupted_scraper connected_scraper =
     (Inl KeyboardInterrupt,
      connected_scraper\<lparr>trace := trace connected_scraper @
         [LogInfo ''Scraping data for {symbol} from {url}'',
          SessionGet (BASE_URL @ ''/'' @ lower ''PETR4'') 10 (Inl KeyboardInterrupt)]\<rparr>)"
  by (simp_all add: news_cycle_def MARKET_TOPICS_def fetch_news_def interrupted_news_def
      with_news_def scraper_cycle_def BRAZILIAN_STOCKS_def scrape_stock_def scrape_body_def
      interrupted_scraper_def with_session_def Let_def emit_def)

text \<open>
  The theorem during an outage of the broker (the publish fails, the reconnect fails, the
  cycle is left by the error of the reconnect), at an interrupt during the first request
  of a cycle, and in an outside where nothing fails.
\<close>

theorem driver_loop_resumes_witness:
  "(\<exists>e s1. news_cycle outage ({||}, connected) = (Inl e, ({||}, s1)) \<and> is_Exception e \<and>
      \<not> sleep_interrupted outage (Suc (now s1)) \<and>
      news_loop outage (Suc 0) ({||}, connected) =
        news_loop outage 0
          ({||}, s1\<lparr>trace := trace s1 @ [LogError ''Error in main loop: {e}'', Sleep 30]\<rparr>)) \<and>
   (\<exists>e s1. scraper_cycle scraper_outage connected_scraper = (Inl e, s1) \<and> is_Exception e \<and>
      \<not> sleep_interrupted scraper_outage (Suc (now s1)) \<and>
      scraper_loop scraper_outage (Suc 0) connected_scraper =
        scraper_loop scraper_outage 0
          (s1\<lparr>trace := trace s1 @ [LogError ''Error in main loop: {e}'', Sleep 30]\<rparr>)) \<and>
   news_cycle interrupted_news ({||}, connected) =
     (Inl KeyboardInterrupt,
      ({||}, connected\<lparr>trace := trace connected @
         [LogInfo ''Fetching news for topic: {topic}'',
          GetNews ''stock market'' (Inl KeyboardInterrupt)]\<rparr>)) \<and>
   news_loop interrupted_news (Suc 0) ({||}, connected) =
     (Returned,
      ({||}, connected\<lparr>trace := trace connected @
         [LogInfo ''Fetching news for topic: {topic}'',
          GetNews ''stock market'' (Inl KeyboardInterrupt)]\<rparr>
        \<lparr>trace := trace (connected\<lparr>trace := trace connected @
         [LogInfo ''Fetching news for topic: {topic}'',
          GetNews ''stock market'' (Inl KeyboardInterrupt)]\<rparr>) @
         [LogInfo ''Shutting down GNews Service...'']\<rparr>)) \<and>
   fst (scraper_loop interrupted_scraper (Suc 0) connected_scraper) = Returned \<and>
   broker_uninterrupted newsy \<and> (\<forall>t. get_news newsy t \<noteq> Inl KeyboardInterrupt) \<and>
   fst (GNewsService_run newsy 3 connected) = Running \<and>
   broker_uninterrupted steady \<and> (\<forall>t. session_get steady t \<noteq> Inl KeyboardInterrupt) \<and>
   fst (StatusInvestScraper_run steady 3 connected_scraper) = Running"
proof -
  have asleep: "\<not> sleep_interrupted outage t" "\<not> sleep_interrupted scraper_outage t" for t
    using outage_out by (simp_all add: broker_out_from_def)
  have "get_news outage (Suc (now connected)) = Inr [story]"
    by (simp add: outage_def with_news_def)
  from news_cycle_outage [OF outage_out(1) _ this, of "{||}"]
  obtain e s1 where n: "is_Exception e" "news_cycle outage ({||}, connected) = (Inl e, ({||}, s1))"
    by (auto simp: story_def dict_get_def)
  have "session_get scraper_outage (Suc (now connected_scraper)) =
          Inr \<lparr>status_code = 200, content = ''<html></html>''\<rparr>"
    "raise_for_status \<lparr>status_code = 200, content = ''<html></html>''\<rparr> = None"
    by (simp_all add: scraper_outage_def with_session_def pages_def raise_for_status_def)
  from scraper_cycle_outage [OF outage_out(2) _ this]
  obtain e2 ss1 where sc: "is_Exception e2"
    "scraper_cycle scraper_outage connected_scraper = (Inl e2, ss1)"
    by auto
  from driver_loop_resumes [of outage "({||}, connected)" e "{||}" s1 0 scraper_outage
      connected_scraper e2 ss1, THEN conjunct1] n asleep
  have a: "news_loop outage (Suc 0) ({||}, connected) =
        news_loop outage 0
          ({||}, s1\<lparr>trace := trace s1 @ [LogError ''Error in main loop: {e}'', Sleep 30]\<rparr>)"
    by blast
  from driver_loop_resumes [of outage "({||}, connected)" e "{||}" s1 0 scraper_outage
      connected_scraper e2 ss1, THEN conjunct2, THEN conjunct1] sc asleep
  have b: "scraper_loop scraper_outage (Suc 0) connected_scraper =
        scraper_loop scraper_outage 0
          (ss1\<lparr>trace := trace ss1 @ [LogError ''Error in main loop: {e}'', Sleep 30]\<rparr>)"
    by blast
  note i = driver_loop_resumes [of interrupted_news "({||}, connected)" _ "{||}" _ 0
      interrupted_scraper connected_scraper, THEN conjunct2, THEN conjunct2]
  from i [THEN conjunct1] interrupted_cycles(1)
  have c: "news_loop interrupted_news (Suc 0) ({||}, connected) =
     (Returned,
      ({||}, connected\<lparr>trace := trace connected @
         [LogInfo ''Fetching news for topic: {topic}'',
          GetNews ''stock market'' (Inl KeyboardInterrupt)]\<rparr>
        \<lparr>trace := trace (connected\<lparr>trace := trace connected @
         [LogInfo ''Fetching news for topic: {topic}'',
          GetNews ''stock market'' (Inl KeyboardInterrupt)]\<rparr>) @
         [LogInfo ''Shutting down GNews Service...'']\<rparr>))"
    by blast
  from i [THEN conjunct2, THEN conjunct1] interrupted_cycles(2)
  have d: "fst (scraper_loop interrupted_scraper (Suc 0) connected_scraper) = Returned"
    by (metis fst_conv)
  note u = driver_loop_resumes [of newsy _ _ _ _ _ steady _ _ _ 3 connected connected_scraper,
      THEN conjunct2, THEN conjunct2, THEN conjunct2, THEN conjunct2]
  from u [THEN conjunct1] u [THEN conjunct2, THEN conjunct1] calm_uninterrupted
  have r: "fst (GNewsService_run newsy 3 connected) = Running"
    "fst (StatusInvestScraper_run steady 3 connected_scraper) = Running"
    by blast+
  from n sc asleep a b have
    "\<exists>e s1. news_cycle outage ({||}, connected) = (Inl e, ({||}, s1)) \<and> is_Exception e \<and>
      \<not> sleep_interrupted outage (Suc (now s1)) \<and>
      news_loop outage (Suc 0) ({||}, connected) =
        news_loop outage 0
          ({||}, s1\<lparr>trace := trace s1 @ [LogError ''Error in main loop: {e}'', Sleep 30]\<rparr>)"
    "\<exists>e s1. scraper_cycle scraper_outage connected_scraper = (Inl e, s1) \<and> is_Exception e \<and>
      \<not> sleep_interrupted scraper_outage (Suc (now s1)) \<and>
      scraper_loop scraper_outage (Suc 0) connected_scraper =
        scraper_loop scraper_outage 0
          (s1\<lparr>trace := trace s1 @ [LogError ''Error in main loop: {e}'', Sleep 30]\<rparr>)"
    by blast+
  with interrupted_cycles(1) c d r calm_uninterrupted show ?thesis by blast
qed

subsection \<open>C10: a record whose publish failed is marked all the same\<close>

lemma mark_member: "fcard P < 10000 \<Longrightarrow> u |\<in>| mark lst P u"
proof -
  assume "fcard P < 10000"
  with fcard_finsert_if [of u P] have "fcard (finsert u P) \<le> 10000" by (simp split: if_splits)
  then have "mark lst P u = finsert u P" by (rule mark_no_prune)
  then show ?thesis by simp
qed

text \<open>
  C10. In the news service, take an article whose identity \<open>u\<close> is not empty and not in
  the cache, and let its \<^verbatim>\<open>basic_publish\<close> fail with an exception of class \<^verbatim>\<open>Exception\<close>
  while the reconnect inside \<^verbatim>\<open>publish_news\<close> succeeds, so that \<^verbatim>\<open>publish_news\<close> returns.
  Then the loop goes on with \<open>u\<close> marked: \<^verbatim>\<open>basic_publish\<close> was called once for the record,
  and the cache is \<open>mark ... u\<close>, which holds \<open>u\<close> when the cache is under its capacity.
  From then on, whenever \<open>u\<close> is in the cache, an article with that identity is skipped:
  the loop over the articles does what it does without the article, so the record is never
  handed to \<^verbatim>\<open>publish_news\<close> again.
\<close>

theorem failed_publish_is_marked:
  assumes "dict_get (a_url a) [] = u" and "u \<noteq> []" and "u |\<notin>| P"
    and "process_article env a tp s = (news, s1)"
    and "basic_publish_raises env (now s1) = Some e" and "is_Exception e"
    and "publish_news env news s1 = (Inr (), s2)"
  shows "for_articles env tp (a # articles) (P, s) =
           for_articles env tp articles (mark (list_of_set env (now s2)) P u, s2) \<and>
         published (trace s2) = published (trace s) @ [news] \<and> url news = u \<and>
         (fcard P < 10000 \<longrightarrow> u |\<in>| mark (list_of_set env (now s2)) P u) \<and>
         (u |\<in>| P' \<longrightarrow>
            for_articles env tp' (a # articles') (P', s') =
            for_articles env tp' articles' (P', s'))"
proof -
  from assms(1,2,3) have u: "dict_get (a_url a) [] \<noteq> []" "dict_get (a_url a) [] |\<notin>| P"
    by simp_all
  from for_articles_publish [OF u assms(4), of articles] assms(1,7)
  have "for_articles env tp (a # articles) (P, s) =
          for_articles env tp articles (mark (list_of_set env (now s2)) P u, s2)"
    by simp
  moreover from quiet_process_article [OF quiet_refl, of s env a tp] assms(4)
  have "published (trace s1) = published (trace s)" by (auto dest: quiet_published)
  with published_publish_news(1) [of env news s1] assms(7)
  have "published (trace s2) = published (trace s) @ [news]" by simp
  moreover from url_process_article [of env a tp s] assms(1,4) have "url news = u" by simp
  moreover have "fcard P < 10000 \<longrightarrow> u |\<in>| mark (list_of_set env (now s2)) P u"
    by (simp add: mark_member)
  moreover have "u |\<in>| P' \<longrightarrow>
            for_articles env tp' (a # articles') (P', s') =
            for_articles env tp' articles' (P', s')"
    using assms(1) for_articles_skip [of a P' env tp' articles' s'] by blast
  ultimately show ?thesis by blast
qed

lemma connect_rabbitmq_accepted:
  assumes "\<forall>t. BlockingConnection_raises env t = None \<and> channel_raises env t = None"
  shows "connect_rabbitmq env exchange queue s =
     (Inr (), s\<lparr>connection := Some (now s), channel := Some (Suc (now s)),
                trace := trace s @ declared exchange queue\<rparr>)"
  using assms
  by (simp add: connect_rabbitmq_def upt_rec max_retries_def try_connect_def call_def andthen_def
      declared_def emit_def now_def)

text \<open>
  The theorem at the first article of a cycle, with a broker that fails the publish and
  accepts the reconnect.
\<close>

theorem failed_publish_is_marked_witness:
  "(\<exists>s1 s2. dict_get (a_url story) [] = ''https://x/1'' \<and> ''https://x/1'' \<noteq> [] \<and>
      ''https://x/1'' |\<notin>| {||} \<and>
      process_article lossy_news story ''bitcoin'' connected = (headline, s1) \<and>
      basic_publish_raises lossy_news (now s1) = Some (Exception ''Channel closed'') \<and>
      is_Exception (Exception ''Channel closed'') \<and>
      publish_news lossy_news headline s1 = (Inr (), s2) \<and>
      for_articles lossy_news ''bitcoin'' [story, story] ({||}, connected) =
        for_articles lossy_news ''bitcoin'' [story]
          (mark (list_of_set lossy_news (now s2)) {||} ''https://x/1'', s2) \<and>
      published (trace s2) = published (trace connected) @ [headline] \<and>
      fcard ({||} :: string fset) < 10000 \<and>
      ''https://x/1'' |\<in>| mark (list_of_set lossy_news (now s2)) {||} ''https://x/1'' \<and>
      ''https://x/1'' |\<in>| {|''https://x/1''|} \<and>
      for_articles lossy_news ''nasdaq'' [story] ({|''https://x/1''|}, s2) =
        for_articles lossy_news ''nasdaq'' [] ({|''https://x/1''|}, s2))"
proof -
  obtain s1 where p: "process_article lossy_news story ''bitcoin'' connected = (headline, s1)"
    by (simp add: process_article_def datetime_utcnow_def lossy_news_def with_news_def lossy_def
        calm_def story_def headline_def dict_get_def)
  have f: "basic_publish_raises lossy_news t = Some (Exception ''Channel closed'')" for t
    by (simp add: lossy_news_def with_news_def lossy_def calm_def)
  have acc: "\<forall>t. BlockingConnection_raises lossy_news t = None \<and> channel_raises lossy_news t = None"
    by (simp add: lossy_news_def with_news_def lossy_def calm_def)
  have "\<exists>s2. publish_news lossy_news headline s1 = (Inr (), s2)"
    unfolding publish_news_def
    by (simp add: publish_failed [OF f] connect_rabbitmq_accepted [OF acc])
  then obtain s2 where pb: "publish_news lossy_news headline s1 = (Inr (), s2)" ..
  have u: "dict_get (a_url story) [] = ''https://x/1''" by (simp add: story_def dict_get_def)
  have e: "''https://x/1'' |\<notin>| {||}" "fcard ({||} :: string fset) < 10000"
    by (simp_all add: fcard_fempty)
  from failed_publish_is_marked [OF u _ e(1) p f _ pb, of "[story]" "{|''https://x/1''|}"
      "''nasdaq''" "[]" s2] u e p f pb
  show ?thesis by auto
qed

subsection \<open>C9: release of the resources on the way out\<close>

text \<open>
  C9 says that every way out of the service releases the broker connection and the HTTP
  session. The \<^verbatim>\<open>__main__\<close> block of the scraping worker builds the object, whose
  constructor opens the session and then connects, before the \<^verbatim>\<open>try\<close> whose \<^verbatim>\<open>finally\<close>
  calls \<^verbatim>\<open>close\<close>. With the broker down at startup the process ends with the exception of
  the fifth attempt and a status that is not 0, as C9 says, but \<^verbatim>\<open>close\<close> was never called:
  the trace holds the five attempts and no \<^verbatim>\<open>session.close()\<close>, and the session is still
  open.
\<close>

theorem startup_failure_leaves_session_open:
  "StatusInvestScraper_main (with_session broker_down pages) fuel =
     (Raised (Exception ''Connection refused''),
      \<lparr>connection = None, channel = None, trace = five_failed_attempts,
       session_open = True\<rparr>) \<and>
   session_open (snd (StatusInvestScraper_main (with_session broker_down pages) fuel)) \<and>
   SessionClose \<notin> set (trace (snd (StatusInvestScraper_main (with_session broker_down pages) fuel))) \<and>
   exit_status (fst (StatusInvestScraper_main (with_session broker_down pages) fuel)) = Some 1"
proof -
  have "BlockingConnection_raises (with_session broker_down pages) t =
          Some (Exception ''Connection refused'')" for t
    by (simp add: with_session_def broker_down_def calm_def)
  with StatusInvestScraper_main_refused [OF broker_down_refuses(5,6), of pages fuel]
  have "StatusInvestScraper_main (with_session broker_down pages) fuel =
     (Raised (Exception ''Connection refused''),
      \<lparr>connection = None, channel = None, trace = five_failed_attempts,
       session_open = True\<rparr>)"
    by auto
  then show ?thesis
    by (simp add: five_failed_attempts_def failed_attempt_def)
qed

subsection \<open>A news client that returns one article, with nothing failing\<close>

lemma publish_news_ok:
  "basic_publish_raises env (now s) = None \<Longrightarrow>
   \<exists>s'. publish_news env d s = (Inr (), s') \<and> published (trace s') = published (trace s) @ [d] \<and>
        fetched (trace s') = fetched (trace s)"
  unfolding publish_news_def by (simp add: publish_ok)

lemma for_topics_seen:
  assumes "news_flows env a" and "dict_get (a_url a) [] |\<in>| P"
  shows "fst (for_topics env topics (P, s)) = Inr () \<and>
         fst (snd (for_topics env topics (P, s))) = P \<and>
         published (trace (snd (snd (for_topics env topics (P, s))))) = published (trace s) \<and>
         fetched (trace (snd (snd (for_topics env topics (P, s))))) =
           fetched (trace s) @ filter (\<lambda>u. u \<noteq> []) (replicate (length topics) (dict_get (a_url a) []))"
proof (induction topics arbitrary: s)
  case Nil
  then show ?case by simp
next
  case (Cons tp topics)
  let ?s1 = "s\<lparr>trace := trace s @
        [LogInfo ''Fetching news for topic: {topic}'', GetNews tp (Inr [a])]\<rparr>"
  from assms(1) have g: "get_news env (Suc (now s)) = Inr [a]"
    unfolding news_flows_def by blast
  have f: "fetch_news env tp s = (Inr [a], ?s1)" using g by (rule fetch_news_returned)
  have fa: "for_articles env tp [a] (P, ?s1) = (Inr (), (P, ?s1))"
    using assms(2) by (simp add: for_articles_skip del: for_articles.simps(2))
  from assms(1) have sl: "time_sleep env 2 ?s1 = (Inr (), emit (Sleep 2) ?s1)"
    unfolding news_flows_def by (simp add: time_sleep_def)
  have step: "for_topics env (tp # topics) (P, s) = for_topics env topics (P, emit (Sleep 2) ?s1)"
    using f fa sl by simp
  show ?case unfolding step using Cons.IH [of "emit (Sleep 2) ?s1"] by simp
qed

lemma for_topics_fresh:
  assumes flows: "news_flows env a" and u: "dict_get (a_url a) [] \<noteq> []"
    "dict_get (a_url a) [] |\<notin>| P" and c: "fcard P < 10000"
  shows "fst (for_topics env (tp # topics) (P, s)) = Inr () \<and>
         fst (snd (for_topics env (tp # topics) (P, s))) = finsert (dict_get (a_url a) []) P \<and>
         map url (published (trace (snd (snd (for_topics env (tp # topics) (P, s)))))) =
           map url (published (trace s)) @ [dict_get (a_url a) []] \<and>
         fetched (trace (snd (snd (for_topics env (tp # topics) (P, s))))) =
           fetched (trace s) @ replicate (Suc (length topics)) (dict_get (a_url a) [])"
proof -
  let ?u = "dict_get (a_url a) []"
  let ?s1 = "s\<lparr>trace := trace s @
        [LogInfo ''Fetching news for topic: {topic}'', GetNews tp (Inr [a])]\<rparr>"
  from flows have g: "get_news env (Suc (now s)) = Inr [a]"
    unfolding news_flows_def by blast
  have f: "fetch_news env tp s = (Inr [a], ?s1)" using g by (rule fetch_news_returned)
  obtain news s2 where p: "process_article env a tp ?s1 = (news, s2)"
    by (cases "process_article env a tp ?s1")
  from quiet_process_article [OF quiet_refl, of ?s1 env a tp] p have q: "quiet ?s1 s2" by simp
  from url_process_article [of env a tp ?s1] p have un: "url news = ?u" by simp
  from flows have "basic_publish_raises env (now s2) = None"
    unfolding news_flows_def by blast
  from publish_news_ok [OF this, of news] obtain s3 where
    pb: "publish_news env news s2 = (Inr (), s3)"
    and p3: "published (trace s3) = published (trace s2) @ [news]"
    and f3: "fetched (trace s3) = fetched (trace s2)" by blast
  from c fcard_finsert_if [of ?u P] have "fcard (finsert ?u P) \<le> 10000"
    by (simp split: if_splits)
  then have m: "mark (list_of_set env (now s3)) P ?u = finsert ?u P" by (rule mark_no_prune)
  have fa: "for_articles env tp [a] (P, ?s1) = (Inr (), (finsert ?u P, s3))"
    using for_articles_publish [OF u p, of "[]"] pb m by simp
  from flows have sl: "time_sleep env 2 s3 = (Inr (), emit (Sleep 2) s3)"
    unfolding news_flows_def by (simp add: time_sleep_def)
  have step: "for_topics env (tp # topics) (P, s) =
      for_topics env topics (finsert ?u P, emit (Sleep 2) s3)"
    using f fa sl by simp
  have "?u |\<in>| finsert ?u P" by simp
  from for_topics_seen [OF flows this, of topics "emit (Sleep 2) s3"]
    quiet_published [OF q] quiet_fetched [OF q] p3 f3 un u(1)
  show ?thesis unfolding step by simp
qed

lemma news_cycle_negative_interval:
  assumes "for_topics env MARKET_TOPICS (P, s) = (Inr (), (P1, s1))"
    and "CHECK_INTERVAL env < 0" and "- 9223372036 \<le> CHECK_INTERVAL env"
  shows "news_cycle env (P, s) =
     (Inl (Exception ''ValueError''),
      (P1, emit (LogInfo ''Completed news check cycle. Sleeping for {CHECK_INTERVAL} seconds...'') s1))"
  using assms by (simp add: news_cycle_def time_sleep_def)

subsection \<open>C1: each new item is published once\<close>

lemma StatusInvestScraper_main_ok:
  assumes "scraping_succeeds env"
    and "\<forall>t. BlockingConnection_raises env t = None \<and> channel_raises env t = None"
  shows "fst (StatusInvestScraper_main env n) = Running \<and>
         map symbol (published (trace (snd (StatusInvestScraper_main env n)))) =
           concat (replicate n BRAZILIAN_STOCKS)"
proof -
  define s1 :: "stock_data scraper" where
    "s1 = \<lparr>connection = Some 0, channel = Some 1,
            trace = declared ''fundamental_data'' ''fundamentals_queue'', session_open = True\<rparr>"
  define s2 where "s2 = emit (LogInfo ''Check interval: {CHECK_INTERVAL} seconds'')
      (emit (LogInfo ''Monitoring {n} Brazilian stocks'')
        (emit (LogInfo ''Scraping Worker started'') s1))"
  have i: "StatusInvestScraper_init env = (Inr (), s1)"
    unfolding StatusInvestScraper_init_def StatusInvestScraper_connect_rabbitmq_def s1_def
    by (simp add: connect_rabbitmq_accepted [OF assms(2)] now_def)
  have r: "StatusInvestScraper_run env n s1 = scraper_loop env n s2"
    by (simp add: StatusInvestScraper_run_def s2_def)
  obtain s3 where l: "scraper_loop env n s2 = (Running, s3)"
    using scraper_loop_ok [OF assms(1), of n s2] by (cases "scraper_loop env n s2") auto
  have m: "StatusInvestScraper_main env n = (Running, s3)"
    by (simp add: StatusInvestScraper_main_def i r l)
  have "published (trace s2) = []" by (simp add: s2_def s1_def declared_def)
  with scraper_loop_ok [OF assms(1), of n s2] l m show ?thesis by simp
qed

lemma GNewsService_main_reconnect_refused:
  "fst (GNewsService_main reconnect_refused n) = Running \<and>
   map url (published (trace (snd (GNewsService_main reconnect_refused n)))) =
     replicate n ''https://x/1''"
proof -
  let ?s3 = "emit (LogInfo ''Check interval: {CHECK_INTERVAL} seconds'')
      (emit (LogInfo ''Monitoring topics: {topics}'')
        (emit (LogInfo ''GNews Service started'') connected))"
  have i: "GNewsService_init reconnect_refused = (Inr (), connected)"
    by (simp add: GNewsService_init_def GNewsService_connect_rabbitmq_def connect_rabbitmq_def
        upt_rec max_retries_def try_connect_def call_def andthen_def reconnect_refused_def
        with_news_def calm_def connected_def declared_def emit_def now_def)
  have out: "broker_out_from 1 reconnect_refused"
    by (simp add: broker_out_from_def reconnect_refused_def with_news_def calm_def)
  have got: "\<forall>t\<ge>1. \<exists>articles. get_news reconnect_refused t = Inr (story # articles)"
    by (simp add: reconnect_refused_def with_news_def)
  have u: "dict_get (a_url story) [] = ''https://x/1''" by (simp add: story_def dict_get_def)
  have k: "1 \<le> now ?s3" by simp
  from news_loop_outage [OF out got _ _ k, of "{||}" n] u
  have l: "fst (news_loop reconnect_refused n ({||}, ?s3)) = Running"
    "map url (published (trace (snd (snd (news_loop reconnect_refused n ({||}, ?s3)))))) =
       map url (published (trace ?s3)) @ replicate n ''https://x/1''"
    by simp_all
  obtain P4 s4 where n4: "news_loop reconnect_refused n ({||}, ?s3) = (Running, (P4, s4))"
    using l(1) by (cases "news_loop reconnect_refused n ({||}, ?s3)") auto
  have r: "GNewsService_run reconnect_refused n connected = (Running, s4)"
    by (simp add: GNewsService_run_def n4)
  have m: "GNewsService_main reconnect_refused n = (Running, s4)"
    by (simp add: GNewsService_main_def i r)
  have "published (trace ?s3) = []" by (simp add: connected_def declared_def)
  with l(2) n4 m show ?thesis by simp
qed

lemma steady_succeeds:
  "scraping_succeeds steady"
  "\<forall>t. BlockingConnection_raises steady t = None \<and> channel_raises steady t = None"
  by (simp_all add: scraping_succeeds_def steady_def with_session_def calm_def pages_def
      raise_for_status_def)

text \<open>
  C1 as stated covers both services and asks nothing of the publish in the first cycle.
  The scraping
  worker keeps no cache: with nothing failing, two cycles hand the record of \<^verbatim>\<open>PETR4\<close> to
  \<^verbatim>\<open>basic_publish\<close> twice. In the news service, while the broker refuses the reconnect, a
  cycle is left by the error of \<^verbatim>\<open>publish_news\<close> before the identity is marked, and the
  next cycle hands the same article to \<^verbatim>\<open>basic_publish\<close> again: twice in two cycles. In
  both runs the source returns the same record in each cycle and the cache is never pruned.
\<close>

theorem published_once_counterexample:
  "count_list (map symbol (published (trace (snd (StatusInvestScraper_main steady 2)))))
     ''PETR4'' = 2 \<and>
   count_list (map url (published (trace (snd (GNewsService_main reconnect_refused 2)))))
     ''https://x/1'' = 2"
  using StatusInvestScraper_main_ok [OF steady_succeeds, of 2]
    GNewsService_main_reconnect_refused [of 2]
  by (simp add: BRAZILIAN_STOCKS_def numeral_2_eq_2)

text \<open>
  C1, as amended. In the news service, take two turns of the loop of \<^verbatim>\<open>run\<close> that start
  with the cache \<open>P0\<close>: the first cycle ends, in whatever way, with the cache \<open>P1\<close>, and
  the two turns end with the cache \<open>P2\<close>. Let \<open>u\<close> be an identity that is not in \<open>P0\<close> and
  is in \<open>P1\<close>, that is, one that the first cycle marked, as it does when \<^verbatim>\<open>publish_news\<close>
  returns for a record of that identity; and let there be no prune in either cycle. Then
  the news client returned \<open>u\<close> during the first cycle, and over the two turns
  \<^verbatim>\<open>basic_publish\<close> is called exactly once with a record of identity \<open>u\<close>, whatever the
  client returns in the second cycle and however the two cycles end. The scraping worker
  has no cache: when every page is served and every publish is taken, every cycle
  publishes one record for every symbol of \<^verbatim>\<open>BRAZILIAN_STOCKS\<close>, in order.
\<close>

theorem news_items_published_once:
  "(news_cycle env (P0, s0) = (r1, (P1, s1)) \<and>
    news_loop env (Suc (Suc 0)) (P0, s0) = (out, (P2, s2)) \<and>
    u |\<notin>| P0 \<and> u |\<in>| P1 \<and> unpruned P0 s0 P1 s1 \<and> unpruned P1 s1 P2 s2 \<longrightarrow>
      count_list (map url (published (trace s2))) u =
        count_list (map url (published (trace s0))) u + 1 \<and>
      u \<in> set (drop (length (fetched (trace s0))) (fetched (trace s1)))) \<and>
   (scraping_succeeds senv \<longrightarrow>
      fst (scraper_loop senv n ss) = Running \<and>
      map symbol (published (trace (snd (scraper_loop senv n ss)))) =
        map symbol (published (trace ss)) @ concat (replicate n BRAZILIAN_STOCKS))"
  using news_published_once [of env P0 s0 r1 P1 s1 out P2 s2 u] scraper_loop_ok [of senv n ss]
  by blast

lemma hasty_flows:
  "news_flows hasty story" "CHECK_INTERVAL hasty < 0" "- 9223372036 \<le> CHECK_INTERVAL hasty"
  "\<not> sleep_interrupted hasty t"
  by (simp_all add: news_flows_def hasty_def with_news_def calm_def)

text \<open>
  The theorem at the first two turns of the news service when the client returns the same
  article for every topic, every publish is taken and the interval between the cycles is
  negative, so that each cycle is left by the \<^verbatim>\<open>ValueError\<close> of its last sleep; and at two
  cycles of the scraping worker when nothing fails.
\<close>

theorem news_items_published_once_witness:
  "(\<exists>s1 s2.
      news_cycle hasty ({||}, connected) =
        (Inl (Exception ''ValueError''), ({|''https://x/1''|}, s1)) \<and>
      news_loop hasty (Suc (Suc 0)) ({||}, connected) = (Running, ({|''https://x/1''|}, s2)) \<and>
      ''https://x/1'' |\<notin>| {||} \<and> ''https://x/1'' |\<in>| {|''https://x/1''|} \<and>
      unpruned {||} connected {|''https://x/1''|} s1 \<and>
      unpruned {|''https://x/1''|} s1 {|''https://x/1''|} s2 \<and>
      count_list (map url (published (trace s2))) ''https://x/1'' =
        count_list (map url (published (trace connected))) ''https://x/1'' + 1 \<and>
      ''https://x/1'' \<in> set (drop (length (fetched (trace connected))) (fetched (trace s1)))) \<and>
   scraping_succeeds steady \<and>
   fst (scraper_loop steady 2 connected_scraper) = Running \<and>
   map symbol (published (trace (snd (scraper_loop steady 2 connected_scraper)))) =
     map symbol (published (trace connected_scraper)) @ concat (replicate 2 BRAZILIAN_STOCKS)"
proof -
  let ?u = "''https://x/1''"
  let ?done = "LogInfo ''Completed news check cycle. Sleeping for {CHECK_INTERVAL} seconds...''"
  let ?err = "[LogError ''Error in main loop: {e}'', Sleep 30]"
  obtain tp topics where mt: "MARKET_TOPICS = tp # topics" by (simp add: MARKET_TOPICS_def)
  have u: "dict_get (a_url story) [] = ?u" by (simp add: story_def dict_get_def)
  have e: "?u |\<notin>| {||}" "fcard ({||} :: string fset) < 10000" "?u |\<in>| {|?u|}"
    by (simp_all add: fcard_fempty)
  have ve: "is_Exception (Exception ''ValueError'')" by simp
  from for_topics_fresh [OF hasty_flows(1) _ _ e(2), of tp topics connected] u e(1)
  have ft: "fst (for_topics hasty MARKET_TOPICS ({||}, connected)) = Inr ()"
    "fst (snd (for_topics hasty MARKET_TOPICS ({||}, connected))) = {|?u|}"
    "map url (published (trace (snd (snd (for_topics hasty MARKET_TOPICS ({||}, connected)))))) =
       map url (published (trace connected)) @ [?u]"
    "fetched (trace (snd (snd (for_topics hasty MARKET_TOPICS ({||}, connected))))) =
       fetched (trace connected) @ replicate (Suc (length topics)) ?u"
    unfolding mt by simp_all
  obtain sf where ftE: "for_topics hasty MARKET_TOPICS ({||}, connected) = (Inr (), ({|?u|}, sf))"
    using ft(1,2) by (cases "for_topics hasty MARKET_TOPICS ({||}, connected)") auto
  define s1 where "s1 = emit ?done sf"
  have c1: "news_cycle hasty ({||}, connected) = (Inl (Exception ''ValueError''), ({|?u|}, s1))"
    unfolding s1_def by (rule news_cycle_negative_interval [OF ftE hasty_flows(2,3)])
  from ft(3,4) ftE have p1: "map url (published (trace s1)) =
      map url (published (trace connected)) @ [?u]"
    and f1: "fetched (trace s1) = fetched (trace connected) @ replicate (Suc (length topics)) ?u"
    by (simp_all add: s1_def)
  define s1b where "s1b = s1\<lparr>trace := trace s1 @ ?err\<rparr>"
  have l1: "news_loop hasty (Suc (Suc 0)) ({||}, connected) =
      news_loop hasty (Suc 0) ({|?u|}, s1b)"
    unfolding s1b_def by (rule news_loop_resumes [OF c1 ve hasty_flows(4)])
  have pb: "published (trace s1b) = published (trace s1)" by (simp add: s1b_def)
  have "dict_get (a_url story) [] |\<in>| {|?u|}" using u by simp
  from for_topics_seen [OF hasty_flows(1) this, of MARKET_TOPICS s1b]
  have fs: "fst (for_topics hasty MARKET_TOPICS ({|?u|}, s1b)) = Inr ()"
    "fst (snd (for_topics hasty MARKET_TOPICS ({|?u|}, s1b))) = {|?u|}"
    "published (trace (snd (snd (for_topics hasty MARKET_TOPICS ({|?u|}, s1b))))) =
       published (trace s1b)"
    by simp_all
  obtain sg where fsE: "for_topics hasty MARKET_TOPICS ({|?u|}, s1b) = (Inr (), ({|?u|}, sg))"
    using fs(1,2) by (cases "for_topics hasty MARKET_TOPICS ({|?u|}, s1b)") auto
  define sc where "sc = emit ?done sg"
  have c2: "news_cycle hasty ({|?u|}, s1b) = (Inl (Exception ''ValueError''), ({|?u|}, sc))"
    unfolding sc_def by (rule news_cycle_negative_interval [OF fsE hasty_flows(2,3)])
  define s2 where "s2 = sc\<lparr>trace := trace sc @ ?err\<rparr>"
  have "news_loop hasty (Suc 0) ({|?u|}, s1b) = news_loop hasty 0 ({|?u|}, s2)"
    unfolding s2_def by (rule news_loop_resumes [OF c2 ve hasty_flows(4)])
  with l1 have l: "news_loop hasty (Suc (Suc 0)) ({||}, connected) = (Running, ({|?u|}, s2))"
    by simp
  from fs(3) fsE pb have p2: "published (trace s2) = published (trace s1)"
    by (simp add: s2_def sc_def)
  from p1 have "length (published (trace s1)) = Suc (length (published (trace connected)))"
    by (metis length_append_singleton length_map)
  with p2 have np: "unpruned {||} connected {|?u|} s1" "unpruned {|?u|} s1 {|?u|} s2"
    by (simp_all add: unpruned_def fcard_fempty)
  note t = news_items_published_once [of hasty "{||}" connected "Inl (Exception ''ValueError'')"
      "{|?u|}" s1 Running "{|?u|}" s2 ?u steady 2 connected_scraper]
  from t [THEN conjunct1] c1 l e(1,3) np
  have "count_list (map url (published (trace s2))) ?u =
          count_list (map url (published (trace connected))) ?u + 1 \<and>
        ?u \<in> set (drop (length (fetched (trace connected))) (fetched (trace s1)))"
    by blast
  moreover from t [THEN conjunct2] steady_succeeds(1)
  have "fst (scraper_loop steady 2 connected_scraper) = Running \<and>
   map symbol (published (trace (snd (scraper_loop steady 2 connected_scraper)))) =
     map symbol (published (trace connected_scraper)) @ concat (replicate 2 BRAZILIAN_STOCKS)"
    by blast
  ultimately show ?thesis
    using c1 l e(1,3) np steady_succeeds(1) by blast
qed

end
